theory Spec2Isabelle
  imports Complex_Main "HOL-Library.Sublist" "HOL-Library.Log_Nat"
begin

section \<open>C strings and the libc functions of audit.c\<close>

text \<open>
  A C string is modelled by the list of its characters up to, and without, the
  terminating NUL.  A pointer into a string is the suffix that starts there, and a
  null pointer is \<open>None\<close>.  C \<open>int\<close> and \<open>time_t\<close> values are modelled by
  unbounded integers: signed overflow is undefined behaviour in C, so executions that
  overflow an \<open>int\<close> are outside this model.
\<close>

definition dquote :: char where
  "dquote = CHR 0x22"

text \<open>\<open>strstr(haystack, needle)\<close>: the suffix at the first occurrence, or NULL.\<close>

fun strstr :: "string \<Rightarrow> string \<Rightarrow> string option" where
  "strstr [] n = (if n = [] then Some [] else None)"
| "strstr (c # cs) n = (if prefix n (c # cs) then Some (c # cs) else strstr cs n)"

text \<open>\<open>strchr(s, c)\<close> for a character \<open>c\<close> other than NUL.\<close>

definition strchr :: "string \<Rightarrow> char \<Rightarrow> string option" where
  "strchr s c = (case dropWhile (\<lambda>d. d \<noteq> c) s of [] \<Rightarrow> None | r \<Rightarrow> Some r)"

definition isspace :: "char \<Rightarrow> bool" where
  "isspace c = (c \<in> set [CHR 0x20, CHR 0x09, CHR 0x0A, CHR 0x0B, CHR 0x0C, CHR 0x0D])"

definition isdigit :: "char \<Rightarrow> bool" where
  "isdigit c = (48 \<le> (of_char c :: nat) \<and> (of_char c :: nat) \<le> 57)"

fun atoi_digits :: "string \<Rightarrow> int \<Rightarrow> int" where
  "atoi_digits [] acc = acc"
| "atoi_digits (c # cs) acc =
     (if isdigit c then atoi_digits cs (acc * 10 + (of_char c - 48)) else acc)"

text \<open>\<open>atoi\<close>: leading white space, an optional sign, then decimal digits.\<close>

definition atoi :: "string \<Rightarrow> int" where
  "atoi s =
     (case dropWhile isspace s of
        [] \<Rightarrow> 0
      | c # cs \<Rightarrow>
          if c = CHR ''-'' then - atoi_digits cs 0
          else if c = CHR ''+'' then atoi_digits cs 0
          else atoi_digits (c # cs) 0)"

text \<open>
  The copy loop \<open>while (*p && *p != '"' && i < n - 1) buf[i++] = *p++;\<close> that
  audit.c uses for every quoted field, with \<open>n\<close> the size of the buffer.
\<close>

definition copy_quoted :: "nat \<Rightarrow> string \<Rightarrow> string" where
  "copy_quoted n p = take (n - 1) (takeWhile (\<lambda>c. c \<noteq> dquote) p)"

text \<open>\<open>strncpy(dst, src, sizeof(dst) - 1)\<close> into a zeroed buffer of \<open>n\<close> bytes.\<close>

definition strncpy_field :: "nat \<Rightarrow> string \<Rightarrow> string" where
  "strncpy_field n src = take (n - 1) src"

text \<open>The first index at which a linear scan \<open>for (i = 0; i < count; i++)\<close> succeeds.\<close>

fun scan_index :: "('a \<Rightarrow> bool) \<Rightarrow> 'a list \<Rightarrow> nat option" where
  "scan_index P [] = None"
| "scan_index P (y # ys) =
     (if P y then Some 0 else map_option Suc (scan_index P ys))"


section \<open>Single-precision floats\<close>

text \<open>
  The \<open>float\<close> fields of the summary and of the baseline.  A value is a rational
  number that binary32 represents, an infinity, or a NaN; the sign of zero is not
  modelled (audit.c never divides by zero and prints no zero).
\<close>

datatype f32 = Finite rat | PlusInf | MinusInf | NaN

text \<open>\<open>pow2 k\<close> is \<open>2\<close> to the power \<open>k\<close>, for any integer \<open>k\<close>.\<close>

definition pow2 :: "int \<Rightarrow> rat" where
  "pow2 k = (if 0 \<le> k then 2 ^ nat k else 1 / 2 ^ nat (- k))"

text \<open>The binary exponent of a positive rational: \<open>pow2 e \<le> a < pow2 (e + 1)\<close>.\<close>

definition ilog2 :: "rat \<Rightarrow> int" where
  "ilog2 a =
     (let (p, q) = quotient_of a;
          e0 = bitlen p - bitlen q
      in if pow2 e0 \<le> a then e0 else e0 - 1)"

text \<open>Rounding a non-negative rational to the nearest integer, ties to even.\<close>

definition round_half_even :: "rat \<Rightarrow> int" where
  "round_half_even r =
     (let f = \<lfloor>r\<rfloor>; d = r - of_int f
      in if d < 1 / 2 then f
         else if 1 / 2 < d then f + 1
         else if even f then f else f + 1)"

text \<open>
  Rounding to binary32 (24 significant bits, exponents from -126 to 127, subnormal
  numbers below, round to nearest with ties to even, overflow to an infinity).
\<close>

definition round32 :: "rat \<Rightarrow> f32" where
  "round32 q =
     (if q = 0 then Finite 0
      else
        let a = \<bar>q\<bar>;
            e = max (ilog2 a) (- 126);
            ulp = pow2 (e - 23);
            r = of_int (round_half_even (a / ulp)) * ulp
        in if pow2 128 \<le> r then (if 0 < q then PlusInf else MinusInf)
           else Finite (if 0 < q then r else - r))"

definition f32_of_int :: "int \<Rightarrow> f32" where
  "f32_of_int n = round32 (of_int n)"

text \<open>
  The conversion \<open>(int)f\<close> truncates towards zero.  It is undefined in C for a NaN
  or an infinity; the model returns what the x86-64 conversion instruction does.
\<close>

definition f32_to_int :: "f32 \<Rightarrow> int" where
  "f32_to_int f =
     (case f of
        Finite q \<Rightarrow> (if 0 \<le> q then \<lfloor>q\<rfloor> else - \<lfloor>- q\<rfloor>)
      | _ \<Rightarrow> - (2 ^ 31))"

definition f32_neg :: "f32 \<Rightarrow> f32" where
  "f32_neg f =
     (case f of Finite q \<Rightarrow> Finite (- q) | PlusInf \<Rightarrow> MinusInf
      | MinusInf \<Rightarrow> PlusInf | NaN \<Rightarrow> NaN)"

fun f32_add :: "f32 \<Rightarrow> f32 \<Rightarrow> f32" where
  "f32_add (Finite a) (Finite b) = round32 (a + b)"
| "f32_add NaN _ = NaN"
| "f32_add _ NaN = NaN"
| "f32_add PlusInf MinusInf = NaN"
| "f32_add MinusInf PlusInf = NaN"
| "f32_add PlusInf _ = PlusInf"
| "f32_add MinusInf _ = MinusInf"
| "f32_add _ PlusInf = PlusInf"
| "f32_add _ MinusInf = MinusInf"

definition f32_sub :: "f32 \<Rightarrow> f32 \<Rightarrow> f32" where
  "f32_sub a b = f32_add a (f32_neg b)"

text \<open>The sign of a float that is not a NaN, as \<open>-1\<close>, \<open>0\<close> or \<open>1\<close>.\<close>

definition f32_sgn :: "f32 \<Rightarrow> int" where
  "f32_sgn f =
     (case f of Finite q \<Rightarrow> (if q < 0 then - 1 else if q = 0 then 0 else 1)
      | PlusInf \<Rightarrow> 1 | MinusInf \<Rightarrow> - 1 | NaN \<Rightarrow> 0)"

definition f32_inf :: "int \<Rightarrow> f32" where
  "f32_inf sg = (if sg = 0 then NaN else if 0 < sg then PlusInf else MinusInf)"

fun f32_mul :: "f32 \<Rightarrow> f32 \<Rightarrow> f32" where
  "f32_mul (Finite a) (Finite b) = round32 (a * b)"
| "f32_mul NaN _ = NaN"
| "f32_mul _ NaN = NaN"
| "f32_mul a b = f32_inf (f32_sgn a * f32_sgn b)"

text \<open>
  Division.  A finite value over zero is an infinity whose sign also depends on the
  sign of the zero; audit.c divides only by a baseline average that is not below
  \<open>0.1f\<close>, so the model takes the zero to be positive.
\<close>

fun f32_div :: "f32 \<Rightarrow> f32 \<Rightarrow> f32" where
  "f32_div (Finite a) (Finite b) =
     (if b = 0 then f32_inf (f32_sgn (Finite a)) else round32 (a / b))"
| "f32_div NaN _ = NaN"
| "f32_div _ NaN = NaN"
| "f32_div (Finite a) _ = Finite 0"
| "f32_div a (Finite b) = f32_inf (f32_sgn a * (if b < 0 then - 1 else 1))"
| "f32_div _ _ = NaN"

text \<open>The comparison \<open>a < b\<close>; \<open>a > b\<close> is \<open>f32_less b a\<close>.  A NaN compares false.\<close>

fun f32_less :: "f32 \<Rightarrow> f32 \<Rightarrow> bool" where
  "f32_less (Finite a) (Finite b) = (a < b)"
| "f32_less NaN _ = False"
| "f32_less _ NaN = False"
| "f32_less PlusInf _ = False"
| "f32_less _ MinusInf = False"
| "f32_less _ _ = True"


section \<open>The declarations of include/audit.h\<close>

text \<open>
  Modelled from the spec: include/audit.h is not among the sources, so its constants
  are parameters of the model and its structs follow the data model of the
  specification.  The buffers \<open>hashed_user_t.hash\<close> and \<open>file_access_t.path\<close> are
  taken to be declared with \<open>HASH_USERNAME_LEN\<close> and \<open>AUDIT_PATH_LEN\<close> bytes, the
  sizes of the local buffers audit.c copies them from.  A vector with its count
  field (\<open>failure_users\<close> and \<open>failure_user_count\<close>, and so on) is the list of its
  first \<open>count\<close> entries.
\<close>

record hashed_user =
  hash :: string
  count :: int

record process_chain =
  names :: "string list"
  depth :: int

record file_access =
  path :: string
  access_type :: string
  fa_count :: int
  process :: string
  suspicious :: bool
  chain :: process_chain

record audit_anomaly =
  anomaly_type :: string
  description :: string
  severity :: string
  current_value :: f32
  baseline_avg :: f32
  deviation_pct :: f32
  timestamp :: int

record audit_summary =
  enabled :: bool
  period_seconds :: int
  capture_time :: int
  auth_failures :: int
  auth_successes :: int
  failure_users :: "hashed_user list"
  brute_force_detected :: bool
  sudo_count :: int
  su_count :: int
  sensitive_files :: "file_access list"
  permission_changes :: int
  ownership_changes :: int
  tmp_executions :: int
  devshm_executions :: int
  shell_spawns :: int
  suspicious_exec_count :: int
  selinux_enforcing :: bool
  selinux_avc_denials :: int
  apparmor_denials :: int
  auth_baseline_avg :: f32
  auth_deviation_pct :: f32
  sudo_baseline_avg :: f32
  sudo_deviation_pct :: f32
  anomalies :: "audit_anomaly list"
  risk_score :: int
  risk_level :: string

record audit_baseline =
  magic :: string
  version :: int
  created :: int
  updated :: int
  sample_count :: int
  avg_auth_failures :: f32
  avg_sudo_count :: f32
  avg_sensitive_access :: f32
  avg_tmp_executions :: f32
  avg_shell_spawns :: f32

text \<open>
  The constants of the header, the sizes of the character arrays that audit.c bounds
  its copies with, the size of \<open>audit_baseline_t\<close>, and the host's reading of the
  bytes of an \<open>audit_baseline_t\<close> object as its fields (the layout is the
  compiler's; the specification places \<open>magic\<close> in the first 8 bytes).
\<close>

record header =
  MAX_AUDIT_USERS :: nat
  MAX_AUDIT_FILES :: nat
  MAX_AUDIT_ANOMALIES :: nat
  HASH_USERNAME_LEN :: nat
  AUDIT_PATH_LEN :: nat
  sizeof_process :: nat
  sizeof_chain_name :: nat
  sizeof_anomaly_type :: nat
  sizeof_description :: nat
  sizeof_severity :: nat
  sizeof_baseline :: nat
  baseline_of_bytes :: "string \<Rightarrow> audit_baseline"

text \<open>
  The collaborators that audit.c calls and does not define: the SHA-256 primitive
  (its hexadecimal digest as a C string) and the two process-chain helpers.
\<close>

record externals =
  sha256_string :: "string \<Rightarrow> string"
  build_process_chain :: "int \<Rightarrow> process_chain \<Rightarrow> process_chain"
  is_suspicious_chain :: "process_chain \<Rightarrow> bool"

abbreviation failure_user_count :: "audit_summary \<Rightarrow> nat" where
  "failure_user_count s \<equiv> length (failure_users s)"

abbreviation sensitive_file_count :: "audit_summary \<Rightarrow> nat" where
  "sensitive_file_count s \<equiv> length (sensitive_files s)"

abbreviation anomaly_count :: "audit_summary \<Rightarrow> nat" where
  "anomaly_count s \<equiv> length (anomalies s)"


section \<open>Username hashing and the authentication parser\<close>

definition username_salt :: string where
  "username_salt = ''sentinel_default_salt''"

text \<open>
  \<open>hash_username(username, output, outsize)\<close> for non-null pointers and a buffer of
  \<open>outsize > 0\<close> bytes: the new contents of \<open>output\<close>.
\<close>

definition hash_username :: "header \<Rightarrow> externals \<Rightarrow> string \<Rightarrow> nat \<Rightarrow> string" where
  "hash_username h x username outsize =
     (if outsize < HASH_USERNAME_LEN h then []
      else
        let salted = take 255 (username_salt @ '':'' @ username);
            hash_hex = sha256_string x salted
        in take (outsize - 1) (''user_'' @ take 4 hash_hex))"

text \<open>
  \<open>find_or_add_user\<close> returns a pointer into \<open>failure_users\<close> or NULL: here the
  index of the entry, with the summary as it leaves it.
\<close>

definition find_or_add_user ::
  "header \<Rightarrow> externals \<Rightarrow> audit_summary \<Rightarrow> string \<Rightarrow> nat option \<times> audit_summary" where
  "find_or_add_user h x s username =
     (let hashed = hash_username h x username (HASH_USERNAME_LEN h) in
      case scan_index (\<lambda>u. hash u = hashed) (failure_users s) of
        Some i \<Rightarrow> (Some i, s)
      | None \<Rightarrow>
          if failure_user_count s < MAX_AUDIT_USERS h then
            (Some (failure_user_count s),
             s\<lparr>failure_users := failure_users s @
                  [\<lparr>hash = take (HASH_USERNAME_LEN h - 1) hashed, count = 0\<rparr>]\<rparr>)
          else (None, s))"

text \<open>The body of the \<open>while (fgets(...))\<close> loop of \<open>parse_auth_events\<close>.\<close>

definition auth_line :: "header \<Rightarrow> externals \<Rightarrow> audit_summary \<Rightarrow> string \<Rightarrow> audit_summary" where
  "auth_line h x s line =
     (if strstr line ''res=failed'' \<noteq> None then
        let s1 = s\<lparr>auth_failures := auth_failures s + 1\<rparr> in
        case strstr line (''acct='' @ [dquote]) of
          None \<Rightarrow> s1
        | Some acct \<Rightarrow>
            let username = copy_quoted 64 (drop 6 acct) in
            if length username > 0 then
              (case find_or_add_user h x s1 username of
                 (Some i, s2) \<Rightarrow>
                   s2\<lparr>failure_users := (failure_users s2)
                        [i := (failure_users s2 ! i)\<lparr>count := count (failure_users s2 ! i) + 1\<rparr>]\<rparr>
               | (None, s2) \<Rightarrow> s2)
            else s1
      else if strstr line ''res=success'' \<noteq> None then
        s\<lparr>auth_successes := auth_successes s + 1\<rparr>
      else s)"

text \<open>
  \<open>parse_auth_events\<close>.  The pipe is \<open>None\<close> when \<open>popen\<close> fails, and otherwise
  the buffers that the successive \<open>fgets\<close> calls deliver until end of file.
\<close>

definition parse_auth_events ::
  "header \<Rightarrow> externals \<Rightarrow> audit_summary \<Rightarrow> string list option \<Rightarrow> audit_summary" where
  "parse_auth_events h x s pipe =
     (case pipe of
        None \<Rightarrow> s
      | Some lines \<Rightarrow>
          let s' = foldl (auth_line h x) s lines
          in s'\<lparr>brute_force_detected := (auth_failures s' > 5)\<rparr>)"

text \<open>
  The user name that \<open>parse_auth_events\<close> extracts from a line, if the line has a
  non-empty \<open>acct="..."\<close> field; the names it extracts from the failed lines of a
  stream; and the tag it stores for a name.
\<close>

definition acct_username :: "string \<Rightarrow> string option" where
  "acct_username line =
     (case strstr line (''acct='' @ [dquote]) of
        None \<Rightarrow> None
      | Some acct \<Rightarrow>
          let username = copy_quoted 64 (drop 6 acct)
          in if length username > 0 then Some username else None)"

definition failing_users :: "string list \<Rightarrow> string list" where
  "failing_users ls =
     List.map_filter acct_username (filter (\<lambda>l. strstr l ''res=failed'' \<noteq> None) ls)"

definition user_tag :: "header \<Rightarrow> externals \<Rightarrow> string \<Rightarrow> string" where
  "user_tag h x username = hash_username h x username (HASH_USERNAME_LEN h)"


section \<open>The event-context cache\<close>

record audit_event_ctx =
  event_id :: int
  pid :: int
  ppid :: int
  comm :: string
  exe :: string
  used :: bool

definition MAX_AUDIT_EVENTS :: nat where
  "MAX_AUDIT_EVENTS = 256"

text \<open>
  The static array \<open>event_ctx\<close> with \<open>event_ctx_count\<close> is the list of its first
  \<open>event_ctx_count\<close> slots; \<open>clear_event_ctx\<close> leaves the empty list.
\<close>

type_synonym event_cache = "audit_event_ctx list"

definition clear_event_ctx :: event_cache where
  "clear_event_ctx = []"

definition extract_event_id :: "string \<Rightarrow> int" where
  "extract_event_id line =
     (case strstr line ''msg=audit('' of
        None \<Rightarrow> - 1
      | Some p \<Rightarrow>
          (case strchr p CHR '':'' of
             None \<Rightarrow> - 1
           | Some q \<Rightarrow> atoi (drop 1 q)))"

text \<open>\<open>get_event_ctx\<close> returns a pointer to a slot or NULL: here the slot's index.\<close>

definition get_event_ctx :: "event_cache \<Rightarrow> int \<Rightarrow> nat option \<times> event_cache" where
  "get_event_ctx cache eid =
     (case scan_index (\<lambda>c. used c \<and> event_id c = eid) cache of
        Some i \<Rightarrow> (Some i, cache)
      | None \<Rightarrow>
          if length cache \<ge> MAX_AUDIT_EVENTS then (None, cache)
          else (Some (length cache),
                cache @ [\<lparr>event_id = eid, pid = 0, ppid = 0, comm = [], exe = [],
                          used = True\<rparr>]))"

text \<open>The body of the loop of \<open>parse_syscall_context\<close>.\<close>

definition syscall_line :: "event_cache \<Rightarrow> string \<Rightarrow> event_cache" where
  "syscall_line cache line =
     (let eid = extract_event_id line in
      if eid < 0 then cache
      else
        case get_event_ctx cache eid of
          (None, cache1) \<Rightarrow> cache1
        | (Some i, cache1) \<Rightarrow>
            let ctx = cache1 ! i;
                ctx1 = (case strstr line '' pid='' of
                          None \<Rightarrow> ctx
                        | Some p \<Rightarrow> ctx\<lparr>pid := atoi (drop 5 p)\<rparr>);
                ctx2 = (case strstr line '' ppid='' of
                          None \<Rightarrow> ctx1
                        | Some p \<Rightarrow> ctx1\<lparr>ppid := atoi (drop 6 p)\<rparr>);
                ctx3 = (case strstr line ('' comm='' @ [dquote]) of
                          None \<Rightarrow> ctx2
                        | Some p \<Rightarrow> ctx2\<lparr>comm := copy_quoted 32 (drop 7 p)\<rparr>);
                ctx4 = (case strstr line ('' exe='' @ [dquote]) of
                          None \<Rightarrow> ctx3
                        | Some p \<Rightarrow> ctx3\<lparr>exe := copy_quoted 256 (drop 6 p)\<rparr>)
            in cache1[i := ctx4])"

definition parse_syscall_context :: "event_cache \<Rightarrow> string list option \<Rightarrow> event_cache" where
  "parse_syscall_context cache pipe =
     (case pipe of None \<Rightarrow> cache | Some lines \<Rightarrow> foldl syscall_line cache lines)"


section \<open>The privilege, file, exec and security-framework parsers\<close>

text \<open>
  \<open>if (fp) { if (fgets(line, sizeof(line), fp)) field = atoi(line); pclose(fp); }\<close>:
  the new value of the field, given the old one.
\<close>

definition read_count :: "string list option \<Rightarrow> int \<Rightarrow> int" where
  "read_count pipe old =
     (case pipe of
        None \<Rightarrow> old
      | Some [] \<Rightarrow> old
      | Some (line # _) \<Rightarrow> atoi line)"

definition parse_priv_events ::
  "audit_summary \<Rightarrow> string list option \<Rightarrow> string list option \<Rightarrow> audit_summary" where
  "parse_priv_events s sudo_pipe su_pipe =
     (let s1 = s\<lparr>sudo_count := read_count sudo_pipe (sudo_count s)\<rparr>
      in s1\<lparr>su_count := read_count su_pipe (su_count s1)\<rparr>)"

text \<open>
  The entry that \<open>parse_file_events\<close> appends for a new path, with the new value of
  \<open>suspicious_exec_count\<close>.  \<open>ctx\<close> is the slot that \<open>get_event_ctx\<close> returned, if
  any.
\<close>

definition new_file_access ::
  "header \<Rightarrow> externals \<Rightarrow> audit_event_ctx option \<Rightarrow> string \<Rightarrow> int \<Rightarrow> file_access \<times> int" where
  "new_file_access h x ctx p susp_count =
     (let fa = \<lparr>path = strncpy_field (AUDIT_PATH_LEN h) p, access_type = ''write'',
                fa_count = 1, process = [], suspicious = False,
                chain = \<lparr>names = [], depth = 0\<rparr>\<rparr>;
          (fa1, n1) =
            (case ctx of
               None \<Rightarrow> (fa, susp_count)
             | Some c \<Rightarrow>
                 if comm c \<noteq> [] then
                   let chain0 = \<lparr>names = [strncpy_field (sizeof_chain_name h) (comm c)],
                                 depth = 1\<rparr>;
                       chain1 = (if ppid c > 1 then build_process_chain x (ppid c) chain0
                                 else chain0);
                       fa' = fa\<lparr>process := strncpy_field (sizeof_process h) (comm c),
                                chain := chain1\<rparr>
                   in if is_suspicious_chain x chain1
                      then (fa'\<lparr>suspicious := True\<rparr>, susp_count + 1)
                      else (fa', susp_count)
                 else (fa, susp_count))
      in if strstr p ''shadow'' \<noteq> None \<or> strstr p ''sudoers'' \<noteq> None
         then (fa1\<lparr>suspicious := True\<rparr>, n1)
         else (fa1, n1))"

text \<open>
  The body of the loop of \<open>parse_file_events\<close>, on the summary and the cache
  (\<open>get_event_ctx\<close> may add a slot).
\<close>

definition file_line ::
  "header \<Rightarrow> externals \<Rightarrow> audit_summary \<times> event_cache \<Rightarrow> string \<Rightarrow> audit_summary \<times> event_cache" where
  "file_line h x st line =
     (let s = fst st; cache = snd st;
          eid = extract_event_id line;
          (ctx, cache1) = (if eid \<ge> 0 then get_event_ctx cache eid else (None, cache))
      in case strstr line (''name='' @ [dquote]) of
           None \<Rightarrow> (s, cache1)
         | Some name \<Rightarrow>
             let p = copy_quoted (AUDIT_PATH_LEN h) (drop 6 name);
                 pathlen = length p
             in if pathlen > 5 \<and> last p \<noteq> CHR ''/''
                   \<and> sensitive_file_count s < MAX_AUDIT_FILES h then
                  (case scan_index (\<lambda>f. path f = p) (sensitive_files s) of
                     Some j \<Rightarrow>
                       (s\<lparr>sensitive_files := (sensitive_files s)
                            [j := (sensitive_files s ! j)
                                    \<lparr>fa_count := fa_count (sensitive_files s ! j) + 1\<rparr>]\<rparr>,
                        cache1)
                   | None \<Rightarrow>
                       let (fa, n) = new_file_access h x (map_option ((!) cache1) ctx) p
                                       (suspicious_exec_count s)
                       in (s\<lparr>sensitive_files := sensitive_files s @ [fa],
                             suspicious_exec_count := n\<rparr>,
                           cache1))
                else (s, cache1))"

definition parse_file_events ::
  "header \<Rightarrow> externals \<Rightarrow> audit_summary \<times> event_cache \<Rightarrow> string list option
     \<Rightarrow> audit_summary \<times> event_cache" where
  "parse_file_events h x st pipe =
     (case pipe of None \<Rightarrow> st | Some lines \<Rightarrow> foldl (file_line h x) st lines)"

text \<open>
  \<open>parse_exec_events\<close> reads the pipe of the command
  \<open>ausearch -sc execve -ts today -i | grep -E 'name=(/tmp/|/dev/shm/)'\<close>: of the
  records that ausearch prints, one to a line, the pipe delivers those that hold
  \<open>name=/tmp/\<close> or \<open>name=/dev/shm/\<close>.
\<close>

definition exec_grep :: "string \<Rightarrow> bool" where
  "exec_grep line \<longleftrightarrow>
     strstr line ''name=/tmp/'' \<noteq> None \<or> strstr line ''name=/dev/shm/'' \<noteq> None"

definition exec_query :: "string list \<Rightarrow> string list" where
  "exec_query records = filter exec_grep records"

definition exec_line :: "audit_summary \<Rightarrow> string \<Rightarrow> audit_summary" where
  "exec_line s line =
     (let s1 = (if strstr line ''/tmp/'' \<noteq> None
                then s\<lparr>tmp_executions := tmp_executions s + 1\<rparr> else s)
      in if strstr line ''/dev/shm/'' \<noteq> None
         then s1\<lparr>devshm_executions := devshm_executions s1 + 1\<rparr> else s1)"

definition parse_exec_events ::
  "audit_summary \<Rightarrow> string list option \<Rightarrow> string list option \<Rightarrow> audit_summary" where
  "parse_exec_events s exec_pipe shell_pipe =
     (case exec_pipe of
        None \<Rightarrow> s
      | Some lines \<Rightarrow>
          let s1 = foldl exec_line s lines
          in s1\<lparr>shell_spawns := read_count shell_pipe (shell_spawns s1)\<rparr>)"

text \<open>
  \<open>check_security_framework\<close>: \<open>enforce_file\<close> is \<open>None\<close> when
  /sys/fs/selinux/enforce cannot be opened.
\<close>

definition check_security_framework ::
  "audit_summary \<Rightarrow> string list option \<Rightarrow> string list option \<Rightarrow> string list option
     \<Rightarrow> audit_summary" where
  "check_security_framework s enforce_file avc_pipe apparmor_pipe =
     (let s2 =
        (case enforce_file of
           None \<Rightarrow> s
         | Some ls \<Rightarrow>
             let s1 = (case ls of [] \<Rightarrow> s
                       | line # _ \<Rightarrow> s\<lparr>selinux_enforcing := (atoi line = 1)\<rparr>)
             in s1\<lparr>selinux_avc_denials := read_count avc_pipe (selinux_avc_denials s1)\<rparr>)
      in s2\<lparr>apparmor_denials := read_count apparmor_pipe (apparmor_denials s2)\<rparr>)"

section \<open>Deviation from the baseline and anomalies\<close>

text \<open>
  Float expressions are evaluated in single precision (\<open>FLT_EVAL_METHOD\<close> 0, as on
  x86-64).  \<open>EMA_ALPHA\<close> is the literal \<open>0.2f\<close>.
\<close>

definition EMA_ALPHA :: f32 where
  "EMA_ALPHA = round32 (1 / 5)"

definition calculate_deviation_pct :: "f32 \<Rightarrow> f32 \<Rightarrow> f32" where
  "calculate_deviation_pct current avg =
     (if f32_less avg (round32 (1 / 10)) then
        (if f32_less (Finite 0) current then Finite 100 else Finite 0)
      else f32_mul (f32_div (f32_sub current avg) avg) (Finite 100))"

definition deviation_significance :: "f32 \<Rightarrow> string" where
  "deviation_significance d =
     (if f32_less (Finite 500) d then ''CRITICAL''
      else if f32_less (Finite 200) d then ''HIGH''
      else if f32_less (Finite 100) d then ''MEDIUM''
      else if f32_less (Finite 50) d then ''LOW''
      else ''NORMAL'')"

definition digit_char :: "nat \<Rightarrow> char" where
  "digit_char d = char_of (48 + d)"

function show_nat :: "nat \<Rightarrow> string" where
  "show_nat n = (if n < 10 then [digit_char n] else show_nat (n div 10) @ [digit_char (n mod 10)])"
  by pat_completeness auto
termination
  by (relation "measure id") auto

declare show_nat.simps [simp del]

text \<open>The conversions \<open>%d\<close> and \<open>%.0f\<close> of \<open>snprintf\<close> (the sign of a NaN is not modelled).\<close>

definition fmt_d :: "int \<Rightarrow> string" where
  "fmt_d n = (if n < 0 then ''-'' @ show_nat (nat (- n)) else show_nat (nat n))"

definition fmt_f0 :: "f32 \<Rightarrow> string" where
  "fmt_f0 f =
     (case f of
        Finite q \<Rightarrow> (if q < 0 then ''-'' @ show_nat (nat (round_half_even (- q)))
                     else show_nat (nat (round_half_even q)))
      | PlusInf \<Rightarrow> ''inf''
      | MinusInf \<Rightarrow> ''-inf''
      | NaN \<Rightarrow> ''nan'')"

text \<open>\<open>snprintf(buf, n, ...)\<close> keeps at most \<open>n - 1\<close> characters of the formatted text.\<close>

definition snprintf :: "nat \<Rightarrow> string \<Rightarrow> string" where
  "snprintf n formatted = take (n - 1) formatted"

definition add_anomaly ::
  "header \<Rightarrow> int \<Rightarrow> audit_summary \<Rightarrow> string \<Rightarrow> string \<Rightarrow> string \<Rightarrow> f32 \<Rightarrow> f32 \<Rightarrow> f32
     \<Rightarrow> audit_summary" where
  "add_anomaly h now s ty desc sev current baseline deviation =
     (if anomaly_count s \<ge> MAX_AUDIT_ANOMALIES h then s
      else s\<lparr>anomalies := anomalies s @
             [\<lparr>anomaly_type = strncpy_field (sizeof_anomaly_type h) ty,
               description = strncpy_field (sizeof_description h) desc,
               severity = strncpy_field (sizeof_severity h) sev,
               current_value = current, baseline_avg = baseline,
               deviation_pct = deviation, timestamp = now\<rparr>]\<rparr>)"

text \<open>
  \<open>detect_anomalies\<close>; the baseline pointer is \<open>None\<close> when it is NULL, and \<open>now\<close> is
  what \<open>time(NULL)\<close> returns.
\<close>

definition detect_anomalies ::
  "header \<Rightarrow> int \<Rightarrow> audit_summary \<Rightarrow> audit_baseline option \<Rightarrow> audit_summary" where
  "detect_anomalies h now s baseline =
     (case baseline of
        None \<Rightarrow> s
      | Some b \<Rightarrow>
          if sample_count b < 5 then s
          else
            let s1 = s\<lparr>auth_baseline_avg := avg_auth_failures b,
                       auth_deviation_pct :=
                         calculate_deviation_pct (f32_of_int (auth_failures s))
                           (avg_auth_failures b)\<rparr>;
                s2 = (if f32_less (Finite 100) (auth_deviation_pct s1) then
                        add_anomaly h now s1 ''auth_failure_spike''
                          (snprintf 128 (fmt_d (auth_failures s1) @ '' auth failures (''
                             @ fmt_f0 (auth_deviation_pct s1) @ ''% above baseline)''))
                          (deviation_significance (auth_deviation_pct s1))
                          (f32_of_int (auth_failures s1)) (avg_auth_failures b)
                          (auth_deviation_pct s1)
                      else s1);
                s3 = s2\<lparr>sudo_baseline_avg := avg_sudo_count b,
                        sudo_deviation_pct :=
                          calculate_deviation_pct (f32_of_int (sudo_count s2))
                            (avg_sudo_count b)\<rparr>;
                s4 = (if f32_less (Finite 200) (sudo_deviation_pct s3) then
                        add_anomaly h now s3 ''sudo_spike''
                          (snprintf 128 (fmt_d (sudo_count s3) @ '' sudo commands (''
                             @ fmt_f0 (sudo_deviation_pct s3) @ ''% above baseline)''))
                          (deviation_significance (sudo_deviation_pct s3))
                          (f32_of_int (sudo_count s3)) (avg_sudo_count b)
                          (sudo_deviation_pct s3)
                      else s3);
                s5 = (if tmp_executions s4 > 0 then
                        add_anomaly h now s4 ''tmp_execution''
                          (snprintf 128 (fmt_d (tmp_executions s4) @ '' executions from /tmp''))
                          ''HIGH'' (f32_of_int (tmp_executions s4)) (Finite 0) (Finite 100)
                      else s4)
            in if devshm_executions s5 > 0 then
                 add_anomaly h now s5 ''devshm_execution''
                   (snprintf 128 (fmt_d (devshm_executions s5) @ '' executions from /dev/shm''))
                   ''CRITICAL'' (f32_of_int (devshm_executions s5)) (Finite 0) (Finite 100)
               else s5)"


section \<open>The risk score\<close>

definition risk_level_of :: "int \<Rightarrow> string" where
  "risk_level_of score =
     (if score \<ge> 31 then ''critical''
      else if score \<ge> 16 then ''high''
      else if score \<ge> 6 then ''medium''
      else ''low'')"

definition calculate_risk_score :: "audit_summary \<Rightarrow> audit_summary" where
  "calculate_risk_score s =
     (let score0 = 0 + auth_failures s * 1;
          score1 = (if brute_force_detected s then score0 + 10 else score0);
          score2 =
            (if f32_less (Finite 500) (auth_deviation_pct s) then
               f32_to_int (f32_mul (f32_of_int score1) (Finite 5))
             else if f32_less (Finite 200) (auth_deviation_pct s) then
               f32_to_int (f32_mul (f32_of_int score1) (Finite 3))
             else if f32_less (Finite 100) (auth_deviation_pct s) then
               f32_to_int (f32_mul (f32_of_int score1) (Finite 2))
             else score1);
          score3 = (if f32_less (Finite 200) (sudo_deviation_pct s) then score2 + 5 else score2);
          score4 = score3 + su_count s * 2;
          score5 = score4 + permission_changes s * 3;
          score6 = score5 + ownership_changes s * 3;
          score7 = foldl (\<lambda>sc f. if suspicious f then sc + 2 + 5 else sc + 2) score6
                     (sensitive_files s);
          score8 = score7 + tmp_executions s * 4;
          score9 = score8 + devshm_executions s * 6;
          score10 = score9 + suspicious_exec_count s * 10;
          score11 = score10 + selinux_avc_denials s * 1;
          score = score11 + apparmor_denials s * 1
      in s\<lparr>risk_score := score, risk_level := risk_level_of score\<rparr>)"


section \<open>The baseline store\<close>

definition AUDIT_BASELINE_MAGIC :: string where
  "AUDIT_BASELINE_MAGIC = ''SNTLAUDT''"

definition AUDIT_BASELINE_VERSION :: int where
  "AUDIT_BASELINE_VERSION = 1"

text \<open>
  \<open>load_audit_baseline\<close>.  \<open>system_file\<close> holds the bytes of
  /var/lib/sentinel/audit_baseline.dat, or \<open>None\<close> when it cannot be opened;
  \<open>user_file\<close> likewise for the file under \<open>$HOME\<close> (\<open>None\<close> also when \<open>HOME\<close> is
  unset).  \<open>mem\<close> holds the bytes of the object that the out-parameter points to;
  the result is the return value with the bytes of that object afterwards.  \<open>fread\<close>
  reads into the object itself; after a short read the object holds the bytes that
  were read, followed by what it held before.
\<close>

definition load_audit_baseline ::
  "header \<Rightarrow> string option \<Rightarrow> string option \<Rightarrow> string \<Rightarrow> bool \<times> string" where
  "load_audit_baseline h system_file user_file mem =
     (case (case system_file of Some f \<Rightarrow> Some f | None \<Rightarrow> user_file) of
        None \<Rightarrow> (False, mem)
      | Some content \<Rightarrow>
          if length content < sizeof_baseline h then
            (False, content @ drop (length content) mem)
          else
            let mem' = take (sizeof_baseline h) content
            in if take 8 mem' \<noteq> AUDIT_BASELINE_MAGIC then (False, mem')
               else (True, mem'))"

definition update_audit_baseline ::
  "int \<Rightarrow> audit_baseline \<Rightarrow> audit_summary \<Rightarrow> audit_baseline" where
  "update_audit_baseline now b current =
     (let b1 =
        (if sample_count b = 0 then
           b\<lparr>magic := take 8 AUDIT_BASELINE_MAGIC,
             version := AUDIT_BASELINE_VERSION,
             created := now,
             avg_auth_failures := f32_of_int (auth_failures current),
             avg_sudo_count := f32_of_int (sudo_count current),
             avg_sensitive_access := f32_of_int (int (sensitive_file_count current)),
             avg_tmp_executions := f32_of_int (tmp_executions current),
             avg_shell_spawns := f32_of_int (shell_spawns current)\<rparr>
         else
           b\<lparr>avg_auth_failures :=
               f32_add (f32_mul (f32_of_int (auth_failures current)) EMA_ALPHA)
                 (f32_mul (avg_auth_failures b) (f32_sub (f32_of_int 1) EMA_ALPHA)),
             avg_sudo_count :=
               f32_add (f32_mul (f32_of_int (sudo_count current)) EMA_ALPHA)
                 (f32_mul (avg_sudo_count b) (f32_sub (f32_of_int 1) EMA_ALPHA)),
             avg_sensitive_access :=
               f32_add (f32_mul (f32_of_int (int (sensitive_file_count current))) EMA_ALPHA)
                 (f32_mul (avg_sensitive_access b) (f32_sub (f32_of_int 1) EMA_ALPHA)),
             avg_tmp_executions :=
               f32_add (f32_mul (f32_of_int (tmp_executions current)) EMA_ALPHA)
                 (f32_mul (avg_tmp_executions b) (f32_sub (f32_of_int 1) EMA_ALPHA)),
             avg_shell_spawns :=
               f32_add (f32_mul (f32_of_int (shell_spawns current)) EMA_ALPHA)
                 (f32_mul (avg_shell_spawns b) (f32_sub (f32_of_int 1) EMA_ALPHA))\<rparr>)
      in b1\<lparr>sample_count := sample_count b1 + 1, updated := now\<rparr>)"


section \<open>The probe\<close>

text \<open>A summary as \<open>calloc\<close> returns it: every byte zero.\<close>

definition calloc_summary :: audit_summary where
  "calloc_summary =
     \<lparr>enabled = False, period_seconds = 0, capture_time = 0,
      auth_failures = 0, auth_successes = 0, failure_users = [],
      brute_force_detected = False, sudo_count = 0, su_count = 0,
      sensitive_files = [], permission_changes = 0, ownership_changes = 0,
      tmp_executions = 0, devshm_executions = 0, shell_spawns = 0,
      suspicious_exec_count = 0, selinux_enforcing = False,
      selinux_avc_denials = 0, apparmor_denials = 0,
      auth_baseline_avg = Finite 0, auth_deviation_pct = Finite 0,
      sudo_baseline_avg = Finite 0, sudo_deviation_pct = Finite 0,
      anomalies = [], risk_score = 0, risk_level = []\<rparr>"

text \<open>
  What one call of \<open>probe_audit\<close> finds on the host: whether \<open>calloc\<close> succeeds,
  the clock (one reading for the whole probe), whether the audit log is readable,
  what each \<open>ausearch\<close> pipe delivers, and the baseline files.
\<close>

record host =
  calloc_succeeds :: bool
  time_now :: int
  audit_log_readable :: bool
  syscall_pipe :: "string list option"
  auth_pipe :: "string list option"
  sudo_pipe :: "string list option"
  su_pipe :: "string list option"
  file_pipe :: "string list option"
  exec_pipe :: "string list option"
  shell_pipe :: "string list option"
  enforce_file :: "string list option"
  avc_pipe :: "string list option"
  apparmor_pipe :: "string list option"
  baseline_system_file :: "string option"
  baseline_user_file :: "string option"

text \<open>\<open>probe_audit\<close>: \<open>None\<close> is the NULL it returns when \<open>calloc\<close> fails.\<close>

definition probe_audit :: "header \<Rightarrow> externals \<Rightarrow> host \<Rightarrow> int \<Rightarrow> audit_summary option" where
  "probe_audit h x w window_seconds =
     (if \<not> calloc_succeeds w then None
      else
        let s0 = calloc_summary\<lparr>enabled := True, period_seconds := window_seconds,
                                capture_time := time_now w\<rparr>
        in if \<not> audit_log_readable w then Some (s0\<lparr>enabled := False\<rparr>)
           else
             let cache1 = parse_syscall_context clear_event_ctx (syscall_pipe w);
                 s1 = parse_auth_events h x s0 (auth_pipe w);
                 s2 = parse_priv_events s1 (sudo_pipe w) (su_pipe w);
                 (s3, cache2) = parse_file_events h x (s2, cache1) (file_pipe w);
                 s4 = parse_exec_events s3 (exec_pipe w) (shell_pipe w);
                 s5 = check_security_framework s4 (enforce_file w) (avc_pipe w)
                        (apparmor_pipe w);
                 (loaded, mem) =
                   load_audit_baseline h (baseline_system_file w) (baseline_user_file w)
                     (replicate (sizeof_baseline h) (CHR 0x00));
                 s6 = (if loaded then
                         detect_anomalies h (time_now w) s5 (Some (baseline_of_bytes h mem))
                       else s5)
             in Some (calculate_risk_score s6))"


section \<open>Concrete inputs\<close>

text \<open>
  Inputs at which the theorems below are evaluated: a header with plausible
  constants (the baseline that the host reads from a loaded file is a parameter),
  stand-ins for the collaborators, and a host on which nothing happened.
\<close>

definition newline :: char where
  "newline = CHR 0x0A"

definition zero_baseline :: audit_baseline where
  "zero_baseline =
     \<lparr>magic = replicate 8 (CHR 0x00), version = 0, created = 0, updated = 0,
      sample_count = 0, avg_auth_failures = Finite 0, avg_sudo_count = Finite 0,
      avg_sensitive_access = Finite 0, avg_tmp_executions = Finite 0,
      avg_shell_spawns = Finite 0\<rparr>"

definition example_header :: "audit_baseline \<Rightarrow> header" where
  "example_header b =
     \<lparr>MAX_AUDIT_USERS = 32, MAX_AUDIT_FILES = 64, MAX_AUDIT_ANOMALIES = 16,
      HASH_USERNAME_LEN = 16, AUDIT_PATH_LEN = 256, sizeof_process = 32,
      sizeof_chain_name = 32, sizeof_anomaly_type = 32, sizeof_description = 128,
      sizeof_severity = 16, sizeof_baseline = 56, baseline_of_bytes = (\<lambda>bytes. b)\<rparr>"

definition example_externals :: externals where
  "example_externals =
     \<lparr>sha256_string = rev, build_process_chain = (\<lambda>p c. c),
      is_suspicious_chain = (\<lambda>c. False)\<rparr>"

definition quiet_host :: host where
  "quiet_host =
     \<lparr>calloc_succeeds = True, time_now = 1767386347, audit_log_readable = True,
      syscall_pipe = Some [], auth_pipe = Some [],
      sudo_pipe = Some [[CHR ''0'', newline]], su_pipe = Some [[CHR ''0'', newline]],
      file_pipe = Some [], exec_pipe = Some [],
      shell_pipe = Some [[CHR ''0'', newline]], enforce_file = None,
      avc_pipe = Some [[CHR ''0'', newline]], apparmor_pipe = Some [[CHR ''0'', newline]],
      baseline_system_file = None, baseline_user_file = None\<rparr>"

text \<open>
  A host whose only event is one record that ausearch prints for the execve query,
  with the given baseline files: the pipe of the query delivers the record if it
  passes the grep of the command.  \<open>devshm_line\<close> is the PATH record of an execve of
  /dev/shm/x as \<open>ausearch -i\<close> prints it, the name without quotes;
  \<open>devshm_quoted_line\<close> is the same record with the name in quotes, as the raw
  format has it.
\<close>

definition exec_host :: "string \<Rightarrow> string option \<Rightarrow> string option \<Rightarrow> host" where
  "exec_host line system_file user_file =
     quiet_host\<lparr>exec_pipe := Some (exec_query [line]), baseline_system_file := system_file,
       baseline_user_file := user_file\<rparr>"

definition devshm_line :: string where
  "devshm_line =
     ''type=PATH msg=audit(01/02/26 20:39:07.120:631) : item=0 name=/dev/shm/x''
       @ '' inode=262 dev=00:19 mode=file,755 ouid=root ogid=root rdev=00:00''
       @ '' nametype=NORMAL'' @ [newline]"

definition devshm_quoted_line :: string where
  "devshm_quoted_line =
     ''type=PATH msg=audit(01/02/26 20:39:07.120:631) : item=0 name='' @ [dquote]
       @ ''/dev/shm/x'' @ [dquote]
       @ '' inode=262 dev=00:19 mode=file,755 ouid=root ogid=root rdev=00:00''
       @ '' nametype=NORMAL'' @ [newline]"

text \<open>
  Lines of the USER_AUTH query: a failed login of a named account, and a failed
  login whose account auditd wrote hex-encoded and unquoted (here ``(invalid user)'').
\<close>

definition auth_failed_line :: "string \<Rightarrow> string" where
  "auth_failed_line user =
     ''type=USER_AUTH msg=audit(1767386347.120:631): pid=1234 uid=0 ''
       @ ''msg=op=PAM:authentication acct='' @ [dquote] @ user @ [dquote]
       @ '' exe='' @ [dquote] @ ''/usr/sbin/sshd'' @ [dquote]
       @ '' addr=10.0.0.5 terminal=ssh res=failed'' @ [newline]"

definition auth_success_line :: "string \<Rightarrow> string" where
  "auth_success_line user =
     ''type=USER_AUTH msg=audit(1767386350.002:640): pid=1234 uid=0 ''
       @ ''msg=op=PAM:authentication acct='' @ [dquote] @ user @ [dquote]
       @ '' exe='' @ [dquote] @ ''/usr/sbin/sshd'' @ [dquote]
       @ '' addr=10.0.0.5 terminal=ssh res=success'' @ [newline]"

definition auth_failed_hex_line :: string where
  "auth_failed_hex_line =
     ''type=USER_AUTH msg=audit(1767386347.120:632): pid=1234 uid=0 ''
       @ ''msg=op=PAM:authentication acct=28696E76616C6964207573657229''
       @ '' exe='' @ [dquote] @ ''/usr/sbin/sshd'' @ [dquote]
       @ '' addr=10.0.0.5 terminal=ssh res=failed'' @ [newline]"

definition auth_host :: "string list \<Rightarrow> host" where
  "auth_host ls = quiet_host\<lparr>auth_pipe := Some ls\<rparr>"

text \<open>
  A PATH line of the identity query for a path, under an event serial; the SYSCALL
  line of an event; and a header whose table of sensitive files holds two entries.
\<close>

definition file_path_line :: "string \<Rightarrow> string \<Rightarrow> string" where
  "file_path_line serial p =
     ''type=PATH msg=audit(1767386347.120:'' @ serial @ ''): item=0 name='' @ [dquote]
       @ p @ [dquote] @ '' inode=262 mode=0100640 nametype=NORMAL'' @ [newline]"

definition syscall_record_line :: "string \<Rightarrow> string \<Rightarrow> string" where
  "syscall_record_line serial c =
     ''type=SYSCALL msg=audit(1767386347.120:'' @ serial @ ''): arch=c000003e syscall=257''
       @ '' ppid=1000 pid=999 uid=0 comm='' @ [dquote] @ c @ [dquote]
       @ '' exe='' @ [dquote] @ ''/usr/bin/'' @ c @ [dquote] @ [newline]"

definition small_header :: header where
  "small_header = (example_header zero_baseline)\<lparr>MAX_AUDIT_FILES := 2\<rparr>"

text \<open>
  A baseline of ten samples with an average of 2 authentication failures, and a
  baseline file of the record's size that starts with the magic.
\<close>

definition ten_sample_baseline :: audit_baseline where
  "ten_sample_baseline =
     zero_baseline\<lparr>magic := ''SNTLAUDT'', version := 1, created := 1767000000,
       updated := 1767300000, sample_count := 10, avg_auth_failures := Finite 2\<rparr>"

definition baseline_file :: string where
  "baseline_file = ''SNTLAUDT'' @ replicate 48 (CHR 0x00)"

text \<open>The order of the risk levels, to state that the classification is monotone.\<close>

definition risk_rank :: "string \<Rightarrow> nat" where
  "risk_rank l =
     (if l = ''critical'' then 3 else if l = ''high'' then 2
      else if l = ''medium'' then 1 else 0)"


section \<open>Loops and scans\<close>

lemma foldl_frame:
  assumes "\<And>s l. P (f s l) = P s"
  shows "P (foldl f s ls) = P s"
  using assms by (induction ls arbitrary: s) auto

lemma scan_index_None: "scan_index P xs = None \<longleftrightarrow> (\<forall>y \<in> set xs. \<not> P y)"
  by (induction xs) auto

lemma scan_index_Some:
  "scan_index P xs = Some i \<Longrightarrow> i < length xs \<and> P (xs ! i)"
  by (induction xs arbitrary: i) (auto split: if_splits)

section \<open>What the stages of a probe leave alone\<close>

lemma auth_line_enabled: "enabled (auth_line h x s l) = enabled s"
  by (auto simp: auth_line_def find_or_add_user_def Let_def
      split: option.splits prod.splits if_splits)

lemma parse_auth_enabled: "enabled (parse_auth_events h x s p) = enabled s"
  by (cases p)
    (simp_all add: parse_auth_events_def Let_def
      foldl_frame [where P=enabled, OF auth_line_enabled])

lemma parse_priv_enabled: "enabled (parse_priv_events s a b) = enabled s"
  by (simp add: parse_priv_events_def Let_def)

lemma file_line_enabled: "enabled (fst (file_line h x st l)) = enabled (fst st)"
  by (auto simp: file_line_def Let_def split: option.splits prod.splits if_splits)

lemma parse_file_enabled: "enabled (fst (parse_file_events h x st p)) = enabled (fst st)"
  by (cases p)
    (simp_all add: parse_file_events_def
      foldl_frame [where P="\<lambda>st. enabled (fst st)", OF file_line_enabled])

lemma exec_line_enabled: "enabled (exec_line s l) = enabled s"
  by (simp add: exec_line_def Let_def)

lemma parse_exec_enabled: "enabled (parse_exec_events s a b) = enabled s"
  by (cases a)
    (simp_all add: parse_exec_events_def Let_def
      foldl_frame [where P=enabled, OF exec_line_enabled])

lemma check_security_framework_enabled:
  "enabled (check_security_framework s a b c) = enabled s"
  by (simp add: check_security_framework_def Let_def split: option.splits list.splits)

lemma add_anomaly_enabled: "enabled (add_anomaly h now s a b c d e f) = enabled s"
  by (simp add: add_anomaly_def)

lemma detect_anomalies_enabled: "enabled (detect_anomalies h now s b) = enabled s"
  by (simp add: detect_anomalies_def Let_def add_anomaly_enabled split: option.splits)

lemma calculate_risk_score_level:
  "risk_level (calculate_risk_score s) = risk_level_of (risk_score (calculate_risk_score s))"
  by (simp add: calculate_risk_score_def Let_def)

lemma calculate_risk_score_enabled: "enabled (calculate_risk_score s) = enabled s"
  by (simp add: calculate_risk_score_def Let_def)

lemma risk_level_of_cases:
  "risk_level_of n \<in> {''low'', ''medium'', ''high'', ''critical''}"
  by (simp add: risk_level_of_def)

lemma risk_level_of_mono:
  "a \<le> b \<Longrightarrow> risk_rank (risk_level_of a) \<le> risk_rank (risk_level_of b)"
  by (simp add: risk_level_of_def risk_rank_def)

lemma probe_audit_readable_eq:
  assumes "calloc_succeeds w" and "audit_log_readable w"
  shows "probe_audit h x w win =
    Some (calculate_risk_score
      (let s5 = check_security_framework
                  (parse_exec_events
                    (fst (parse_file_events h x
                      (parse_priv_events
                        (parse_auth_events h x
                          (calloc_summary\<lparr>enabled := True, period_seconds := win,
                             capture_time := time_now w\<rparr>) (auth_pipe w))
                        (sudo_pipe w) (su_pipe w),
                       parse_syscall_context clear_event_ctx (syscall_pipe w))
                      (file_pipe w)))
                    (exec_pipe w) (shell_pipe w))
                  (enforce_file w) (avc_pipe w) (apparmor_pipe w);
           ld = load_audit_baseline h (baseline_system_file w) (baseline_user_file w)
                  (replicate (sizeof_baseline h) (CHR 0x00))
       in if fst ld
          then detect_anomalies h (time_now w) s5 (Some (baseline_of_bytes h (snd ld)))
          else s5))"
  using assms by (simp add: probe_audit_def Let_def case_prod_beta)

lemma probe_audit_readable:
  assumes "probe_audit h x w win = Some s" and "audit_log_readable w"
  shows "enabled s \<and> risk_level s = risk_level_of (risk_score s)"
proof -
  define s0 where "s0 = calloc_summary\<lparr>enabled := True, period_seconds := win,
    capture_time := time_now w\<rparr>"
  define s2 where "s2 = parse_priv_events (parse_auth_events h x s0 (auth_pipe w))
    (sudo_pipe w) (su_pipe w)"
  define st where "st = parse_file_events h x
    (s2, parse_syscall_context clear_event_ctx (syscall_pipe w)) (file_pipe w)"
  define s5 where "s5 = check_security_framework
    (parse_exec_events (fst st) (exec_pipe w) (shell_pipe w))
    (enforce_file w) (avc_pipe w) (apparmor_pipe w)"
  have e2: "enabled s2"
    by (simp add: s2_def s0_def parse_priv_enabled parse_auth_enabled)
  have "enabled (fst st) = enabled s2"
    unfolding st_def by (simp add: parse_file_enabled)
  with e2 have e5: "enabled s5"
    by (simp add: s5_def check_security_framework_enabled parse_exec_enabled)
  from assms obtain s6 where s: "s = calculate_risk_score s6"
    and s6: "s6 = s5 \<or> (\<exists>b. s6 = detect_anomalies h (time_now w) s5 b)"
    by (auto simp: probe_audit_def Let_def s5_def st_def s2_def s0_def
        split: if_splits prod.splits)
  from s6 e5 have "enabled s6"
    by (auto simp: detect_anomalies_enabled)
  with s show ?thesis
    by (simp add: calculate_risk_score_level calculate_risk_score_enabled)
qed

text \<open>The later stages of the probe leave the authentication fields alone.\<close>

lemma parse_priv_auth:
  "failure_users (parse_priv_events s a b) = failure_users s
   \<and> auth_failures (parse_priv_events s a b) = auth_failures s"
  by (simp add: parse_priv_events_def Let_def)

lemma file_line_auth:
  "(failure_users (fst (file_line h x st l)), auth_failures (fst (file_line h x st l)))
     = (failure_users (fst st), auth_failures (fst st))"
  by (auto simp: file_line_def Let_def split: option.splits prod.splits if_splits)

lemma parse_file_auth:
  "failure_users (fst (parse_file_events h x st p)) = failure_users (fst st)
   \<and> auth_failures (fst (parse_file_events h x st p)) = auth_failures (fst st)"
  using foldl_frame [where P="\<lambda>st. (failure_users (fst st), auth_failures (fst st))"
      and f="file_line h x", OF file_line_auth]
  by (cases p) (simp_all add: parse_file_events_def)

lemma exec_line_auth:
  "(failure_users (exec_line s l), auth_failures (exec_line s l))
     = (failure_users s, auth_failures s)"
  by (simp add: exec_line_def Let_def)

lemma parse_exec_auth:
  "failure_users (parse_exec_events s a b) = failure_users s
   \<and> auth_failures (parse_exec_events s a b) = auth_failures s"
  using foldl_frame [where P="\<lambda>s. (failure_users s, auth_failures s)"
      and f=exec_line, OF exec_line_auth]
  by (cases a) (simp_all add: parse_exec_events_def Let_def)

lemma check_security_framework_auth:
  "failure_users (check_security_framework s a b c) = failure_users s
   \<and> auth_failures (check_security_framework s a b c) = auth_failures s"
  by (simp add: check_security_framework_def Let_def split: option.splits list.splits)

lemma add_anomaly_auth:
  "failure_users (add_anomaly h now s a b c d e f) = failure_users s
   \<and> auth_failures (add_anomaly h now s a b c d e f) = auth_failures s"
  by (simp add: add_anomaly_def)

lemma detect_anomalies_auth:
  "failure_users (detect_anomalies h now s b) = failure_users s
   \<and> auth_failures (detect_anomalies h now s b) = auth_failures s"
  by (simp add: detect_anomalies_def Let_def add_anomaly_auth split: option.splits)

lemma calculate_risk_score_auth:
  "failure_users (calculate_risk_score s) = failure_users s
   \<and> auth_failures (calculate_risk_score s) = auth_failures s"
  by (simp add: calculate_risk_score_def Let_def)

lemma probe_audit_auth_fields:
  assumes "probe_audit h x w win = Some s" and "audit_log_readable w"
  shows "failure_users s = failure_users (parse_auth_events h x
            (calloc_summary\<lparr>enabled := True, period_seconds := win,
               capture_time := time_now w\<rparr>) (auth_pipe w))
    \<and> auth_failures s = auth_failures (parse_auth_events h x
            (calloc_summary\<lparr>enabled := True, period_seconds := win,
               capture_time := time_now w\<rparr>) (auth_pipe w))"
proof -
  from assms(1) have "calloc_succeeds w"
    by (simp add: probe_audit_def split: if_splits)
  from probe_audit_readable_eq [OF this assms(2), of h x win] assms(1)
  obtain s6 where s: "s = calculate_risk_score s6"
    and s6: "s6 = (let s5 = check_security_framework
                  (parse_exec_events
                    (fst (parse_file_events h x
                      (parse_priv_events
                        (parse_auth_events h x
                          (calloc_summary\<lparr>enabled := True, period_seconds := win,
                             capture_time := time_now w\<rparr>) (auth_pipe w))
                        (sudo_pipe w) (su_pipe w),
                       parse_syscall_context clear_event_ctx (syscall_pipe w))
                      (file_pipe w)))
                    (exec_pipe w) (shell_pipe w))
                  (enforce_file w) (avc_pipe w) (apparmor_pipe w);
           ld = load_audit_baseline h (baseline_system_file w) (baseline_user_file w)
                  (replicate (sizeof_baseline h) (CHR 0x00))
       in if fst ld
          then detect_anomalies h (time_now w) s5 (Some (baseline_of_bytes h (snd ld)))
          else s5)"
    by simp
  show ?thesis
    unfolding s s6 Let_def
    by (simp add: calculate_risk_score_auth detect_anomalies_auth
        check_security_framework_auth parse_exec_auth parse_file_auth parse_priv_auth)
qed

text \<open>The later stages of the probe leave \<open>brute_force_detected\<close> alone.\<close>

lemma parse_priv_brute_force:
  "brute_force_detected (parse_priv_events s a b) = brute_force_detected s"
  by (simp add: parse_priv_events_def Let_def)

lemma file_line_brute_force:
  "brute_force_detected (fst (file_line h x st l)) = brute_force_detected (fst st)"
  by (auto simp: file_line_def Let_def split: option.splits prod.splits if_splits)

lemma parse_file_brute_force:
  "brute_force_detected (fst (parse_file_events h x st p)) = brute_force_detected (fst st)"
  by (cases p)
    (simp_all add: parse_file_events_def
      foldl_frame [where P="\<lambda>st. brute_force_detected (fst st)", OF file_line_brute_force])

lemma exec_line_brute_force:
  "brute_force_detected (exec_line s l) = brute_force_detected s"
  by (simp add: exec_line_def Let_def)

lemma parse_exec_brute_force:
  "brute_force_detected (parse_exec_events s a b) = brute_force_detected s"
  by (cases a)
    (simp_all add: parse_exec_events_def Let_def
      foldl_frame [where P=brute_force_detected, OF exec_line_brute_force])

lemma check_security_framework_brute_force:
  "brute_force_detected (check_security_framework s a b c) = brute_force_detected s"
  by (simp add: check_security_framework_def Let_def split: option.splits list.splits)

lemma add_anomaly_brute_force:
  "brute_force_detected (add_anomaly h now s a b c d e f) = brute_force_detected s"
  by (simp add: add_anomaly_def)

lemma detect_anomalies_brute_force:
  "brute_force_detected (detect_anomalies h now s b) = brute_force_detected s"
  by (simp add: detect_anomalies_def Let_def add_anomaly_brute_force split: option.splits)

lemma calculate_risk_score_brute_force:
  "brute_force_detected (calculate_risk_score s) = brute_force_detected s"
  by (simp add: calculate_risk_score_def Let_def)

lemma probe_audit_brute_force:
  assumes "probe_audit h x w win = Some s" and "audit_log_readable w"
  shows "brute_force_detected s = brute_force_detected (parse_auth_events h x
            (calloc_summary\<lparr>enabled := True, period_seconds := win,
               capture_time := time_now w\<rparr>) (auth_pipe w))"
proof -
  from assms(1) have "calloc_succeeds w"
    by (simp add: probe_audit_def split: if_splits)
  from probe_audit_readable_eq [OF this assms(2), of h x win] assms(1)
  have "s = calculate_risk_score
      (let s5 = check_security_framework
                  (parse_exec_events
                    (fst (parse_file_events h x
                      (parse_priv_events
                        (parse_auth_events h x
                          (calloc_summary\<lparr>enabled := True, period_seconds := win,
                             capture_time := time_now w\<rparr>) (auth_pipe w))
                        (sudo_pipe w) (su_pipe w),
                       parse_syscall_context clear_event_ctx (syscall_pipe w))
                      (file_pipe w)))
                    (exec_pipe w) (shell_pipe w))
                  (enforce_file w) (avc_pipe w) (apparmor_pipe w);
           ld = load_audit_baseline h (baseline_system_file w) (baseline_user_file w)
                  (replicate (sizeof_baseline h) (CHR 0x00))
       in if fst ld
          then detect_anomalies h (time_now w) s5 (Some (baseline_of_bytes h (snd ld)))
          else s5)"
    by simp
  then show ?thesis
    by (simp add: Let_def calculate_risk_score_brute_force detect_anomalies_brute_force
        check_security_framework_brute_force parse_exec_brute_force parse_file_brute_force
        parse_priv_brute_force)
qed

text \<open>The parsers and the risk scorer leave the findings of the anomaly detector alone.\<close>

lemma auth_line_findings:
  "(anomalies (auth_line h x s l), auth_baseline_avg (auth_line h x s l),
    auth_deviation_pct (auth_line h x s l), sudo_baseline_avg (auth_line h x s l),
    sudo_deviation_pct (auth_line h x s l))
   = (anomalies s, auth_baseline_avg s, auth_deviation_pct s, sudo_baseline_avg s,
      sudo_deviation_pct s)"
  by (auto simp: auth_line_def find_or_add_user_def Let_def
      split: option.splits prod.splits if_splits)

lemma parse_auth_findings:
  "anomalies (parse_auth_events h x s p) = anomalies s
   \<and> auth_baseline_avg (parse_auth_events h x s p) = auth_baseline_avg s
   \<and> auth_deviation_pct (parse_auth_events h x s p) = auth_deviation_pct s
   \<and> sudo_baseline_avg (parse_auth_events h x s p) = sudo_baseline_avg s
   \<and> sudo_deviation_pct (parse_auth_events h x s p) = sudo_deviation_pct s"
  using foldl_frame [where P="\<lambda>s. (anomalies s, auth_baseline_avg s, auth_deviation_pct s,
      sudo_baseline_avg s, sudo_deviation_pct s)" and f="auth_line h x", OF auth_line_findings]
  by (cases p) (simp_all add: parse_auth_events_def Let_def)

lemma parse_priv_findings:
  "anomalies (parse_priv_events s a b) = anomalies s
   \<and> auth_baseline_avg (parse_priv_events s a b) = auth_baseline_avg s
   \<and> auth_deviation_pct (parse_priv_events s a b) = auth_deviation_pct s
   \<and> sudo_baseline_avg (parse_priv_events s a b) = sudo_baseline_avg s
   \<and> sudo_deviation_pct (parse_priv_events s a b) = sudo_deviation_pct s"
  by (simp add: parse_priv_events_def Let_def)

lemma file_line_findings:
  "(anomalies (fst (file_line h x st l)), auth_baseline_avg (fst (file_line h x st l)),
    auth_deviation_pct (fst (file_line h x st l)), sudo_baseline_avg (fst (file_line h x st l)),
    sudo_deviation_pct (fst (file_line h x st l)))
   = (anomalies (fst st), auth_baseline_avg (fst st), auth_deviation_pct (fst st),
      sudo_baseline_avg (fst st), sudo_deviation_pct (fst st))"
  by (auto simp: file_line_def Let_def split: option.splits prod.splits if_splits)

lemma parse_file_findings:
  "anomalies (fst (parse_file_events h x st p)) = anomalies (fst st)
   \<and> auth_baseline_avg (fst (parse_file_events h x st p)) = auth_baseline_avg (fst st)
   \<and> auth_deviation_pct (fst (parse_file_events h x st p)) = auth_deviation_pct (fst st)
   \<and> sudo_baseline_avg (fst (parse_file_events h x st p)) = sudo_baseline_avg (fst st)
   \<and> sudo_deviation_pct (fst (parse_file_events h x st p)) = sudo_deviation_pct (fst st)"
  using foldl_frame [where P="\<lambda>st. (anomalies (fst st), auth_baseline_avg (fst st),
      auth_deviation_pct (fst st), sudo_baseline_avg (fst st), sudo_deviation_pct (fst st))"
      and f="file_line h x", OF file_line_findings]
  by (cases p) (simp_all add: parse_file_events_def)

lemma exec_line_findings:
  "(anomalies (exec_line s l), auth_baseline_avg (exec_line s l),
    auth_deviation_pct (exec_line s l), sudo_baseline_avg (exec_line s l),
    sudo_deviation_pct (exec_line s l))
   = (anomalies s, auth_baseline_avg s, auth_deviation_pct s, sudo_baseline_avg s,
      sudo_deviation_pct s)"
  by (simp add: exec_line_def Let_def)

lemma parse_exec_findings:
  "anomalies (parse_exec_events s a b) = anomalies s
   \<and> auth_baseline_avg (parse_exec_events s a b) = auth_baseline_avg s
   \<and> auth_deviation_pct (parse_exec_events s a b) = auth_deviation_pct s
   \<and> sudo_baseline_avg (parse_exec_events s a b) = sudo_baseline_avg s
   \<and> sudo_deviation_pct (parse_exec_events s a b) = sudo_deviation_pct s"
  using foldl_frame [where P="\<lambda>s. (anomalies s, auth_baseline_avg s, auth_deviation_pct s,
      sudo_baseline_avg s, sudo_deviation_pct s)" and f=exec_line, OF exec_line_findings]
  by (cases a) (simp_all add: parse_exec_events_def Let_def)

lemma check_security_framework_findings:
  "anomalies (check_security_framework s a b c) = anomalies s
   \<and> auth_baseline_avg (check_security_framework s a b c) = auth_baseline_avg s
   \<and> auth_deviation_pct (check_security_framework s a b c) = auth_deviation_pct s
   \<and> sudo_baseline_avg (check_security_framework s a b c) = sudo_baseline_avg s
   \<and> sudo_deviation_pct (check_security_framework s a b c) = sudo_deviation_pct s"
  by (simp add: check_security_framework_def Let_def split: option.splits list.splits)

lemma calculate_risk_score_findings:
  "anomalies (calculate_risk_score s) = anomalies s
   \<and> auth_baseline_avg (calculate_risk_score s) = auth_baseline_avg s
   \<and> auth_deviation_pct (calculate_risk_score s) = auth_deviation_pct s
   \<and> sudo_baseline_avg (calculate_risk_score s) = sudo_baseline_avg s
   \<and> sudo_deviation_pct (calculate_risk_score s) = sudo_deviation_pct s"
  by (simp add: calculate_risk_score_def Let_def)

lemma detect_anomalies_skipped:
  "baseline = None \<or> (\<exists>b. baseline = Some b \<and> sample_count b < 5)
     \<Longrightarrow> detect_anomalies h now s baseline = s"
  by (auto simp: detect_anomalies_def)

lemma probe_audit_no_detection:
  assumes "probe_audit h x w win = Some s"
    and "\<not> fst (load_audit_baseline h (baseline_system_file w) (baseline_user_file w)
                 (replicate (sizeof_baseline h) (CHR 0x00)))
         \<or> sample_count (baseline_of_bytes h (snd (load_audit_baseline h
                 (baseline_system_file w) (baseline_user_file w)
                 (replicate (sizeof_baseline h) (CHR 0x00))))) < 5"
  shows "anomalies s = [] \<and> auth_baseline_avg s = Finite 0 \<and> auth_deviation_pct s = Finite 0
    \<and> sudo_baseline_avg s = Finite 0 \<and> sudo_deviation_pct s = Finite 0"
proof (cases "audit_log_readable w")
  case True
  let ?ld = "load_audit_baseline h (baseline_system_file w) (baseline_user_file w)
                 (replicate (sizeof_baseline h) (CHR 0x00))"
  from assms(1) have "calloc_succeeds w"
    by (simp add: probe_audit_def split: if_splits)
  from probe_audit_readable_eq [OF this True, of h x win] assms(1)
  have s: "s = calculate_risk_score
      (let s5 = check_security_framework
                  (parse_exec_events
                    (fst (parse_file_events h x
                      (parse_priv_events
                        (parse_auth_events h x
                          (calloc_summary\<lparr>enabled := True, period_seconds := win,
                             capture_time := time_now w\<rparr>) (auth_pipe w))
                        (sudo_pipe w) (su_pipe w),
                       parse_syscall_context clear_event_ctx (syscall_pipe w))
                      (file_pipe w)))
                    (exec_pipe w) (shell_pipe w))
                  (enforce_file w) (avc_pipe w) (apparmor_pipe w)
       in if fst ?ld
          then detect_anomalies h (time_now w) s5 (Some (baseline_of_bytes h (snd ?ld)))
          else s5)"
    by (simp add: Let_def)
  have skip: "(if fst ?ld
          then detect_anomalies h (time_now w) t (Some (baseline_of_bytes h (snd ?ld)))
          else t) = t" for t
    using assms(2) by (auto simp: detect_anomalies_skipped)
  show ?thesis
    unfolding s Let_def skip
    by (simp add: calculate_risk_score_findings check_security_framework_findings
        parse_exec_findings parse_file_findings parse_priv_findings parse_auth_findings
        calloc_summary_def)
next
  case False
  with assms(1) have "s = calloc_summary\<lparr>enabled := True, period_seconds := win,
      capture_time := time_now w, enabled := False\<rparr>"
    by (auto simp: probe_audit_def Let_def split: if_splits)
  then show ?thesis
    by (simp add: calloc_summary_def)
qed

section \<open>Single-precision arithmetic\<close>

subsection \<open>Small integers\<close>

text \<open>
  An integer below \<open>2 ^ 24\<close> in absolute value is a binary32 number, so converting
  it and multiplying it by a small constant is exact.
\<close>

lemma pow2_pos: "0 < pow2 k"
  by (simp add: pow2_def)

lemma round_half_even_of_int: "round_half_even (of_int k) = k"
  by (simp add: round_half_even_def)

lemma ilog2_of_int:
  assumes "0 < m"
  shows "ilog2 (of_int m) = bitlen m - 1"
proof -
  from assms have b: "1 \<le> bitlen m"
    by (simp add: bitlen_alt_def)
  from bitlen_bounds [OF assms] have "(2::int) ^ nat (bitlen m - 1) \<le> m" by simp
  then have "(of_int ((2::int) ^ nat (bitlen m - 1)) :: rat) \<le> of_int m"
    by (simp only: of_int_le_iff)
  then have "pow2 (bitlen m - 1) \<le> of_int m"
    using b by (simp add: pow2_def)
  moreover have "bitlen 1 = 1" by (simp add: bitlen_alt_def)
  ultimately show ?thesis
    by (simp add: ilog2_def Let_def)
qed

lemma bitlen_le_24:
  assumes "0 < m" and "m < 2 ^ 24"
  shows "1 \<le> bitlen m \<and> bitlen m \<le> 24"
proof -
  from assms(1) have b: "1 \<le> bitlen m"
    by (simp add: bitlen_alt_def)
  from bitlen_bounds [OF assms(1)] assms(2)
  have lt: "(2::int) ^ nat (bitlen m - 1) < 2 ^ 24" by linarith
  have "nat (bitlen m - 1) < 24"
  proof (rule ccontr)
    assume "\<not> nat (bitlen m - 1) < 24"
    then have "24 \<le> nat (bitlen m - 1)" by simp
    then have "(2::int) ^ 24 \<le> 2 ^ nat (bitlen m - 1)"
      by (rule power_increasing) simp
    with lt show False by linarith
  qed
  with b show ?thesis by linarith
qed

lemma round32_of_pos_int:
  assumes "0 < m" and "m < 2 ^ 24"
  shows "round32 (of_int m) = Finite (of_int m)"
proof -
  define k where "k = nat (24 - bitlen m)"
  from bitlen_le_24 [OF assms] have e: "1 \<le> bitlen m" "bitlen m \<le> 24" by simp_all
  have il: "ilog2 (of_int m) = bitlen m - 1"
    by (rule ilog2_of_int [OF assms(1)])
  have mx: "max (bitlen m - 1) (- 126) = bitlen m - 1"
    using e by simp
  have ulp: "pow2 (bitlen m - 1 - 23) = 1 / 2 ^ k"
    using e by (auto simp: pow2_def k_def) 
  have quot: "(of_int m :: rat) / (1 / 2 ^ k) = of_int (m * 2 ^ k)"
    by simp
  have r: "of_int (round_half_even (of_int (m * 2 ^ k))) * (1 / 2 ^ k) = (of_int m :: rat)"
    by (simp only: round_half_even_of_int) simp
  have lt: "\<not> pow2 128 \<le> (of_int m :: rat)"
  proof -
    have "(of_int m :: rat) < of_int (2 ^ 24)"
      using assms(2) by (simp only: of_int_less_iff)
    then show ?thesis by (simp add: pow2_def)
  qed
  from assms(1) have pos: "(0::rat) < of_int m" "(of_int m :: rat) \<noteq> 0" "\<bar>of_int m :: rat\<bar> = of_int m"
    by simp_all
  show ?thesis
    unfolding round32_def Let_def pos(3) il mx ulp quot r
    using pos lt by simp
qed

lemma round32_neg: "round32 (- q) = f32_neg (round32 q)"
  by (simp add: round32_def Let_def f32_neg_def)

lemma round32_of_int:
  assumes "\<bar>m\<bar> < 2 ^ 24"
  shows "round32 (of_int m) = Finite (of_int m)"
proof -
  consider "m = 0" | "0 < m" | "m < 0" by linarith
  then show ?thesis
  proof cases
    case 1
    then show ?thesis by (simp add: round32_def)
  next
    case 2
    with assms show ?thesis by (simp add: round32_of_pos_int)
  next
    case 3
    with assms have "round32 (of_int (- m)) = Finite (of_int (- m))"
      by (intro round32_of_pos_int) simp_all
    then have "f32_neg (round32 (of_int m)) = Finite (- of_int m)"
      by (simp add: round32_neg)
    then show ?thesis
      by (cases "round32 (of_int m)") (simp_all add: f32_neg_def)
  qed
qed

lemma f32_of_small_int: "\<bar>n\<bar> < 2 ^ 24 \<Longrightarrow> f32_of_int n = Finite (of_int n)"
  by (simp add: f32_of_int_def round32_of_int)

subsection \<open>The weights of the moving average\<close>

lemma one_minus_alpha: "f32_sub (f32_of_int 1) EMA_ALPHA = round32 (4 / 5)"
  by code_simp

lemma EMA_ALPHA_value: "EMA_ALPHA = Finite (13421773 / 67108864)"
  by code_simp

lemma one_minus_alpha_value: "round32 (4 / 5) = Finite (13421773 / 16777216)"
  by code_simp

subsection \<open>The error of one rounding\<close>

lemma pow2_powi: "pow2 k = 2 powi k"
  by (simp add: pow2_def power_int_def field_simps)

lemma pow2_add: "pow2 (a + b) = pow2 a * pow2 b"
  by (simp add: pow2_powi power_int_add)

lemma pow2_diff: "pow2 (a - b) = pow2 a / pow2 b"
  by (simp add: pow2_powi power_int_diff)

lemma pow2_nat: "0 \<le> k \<Longrightarrow> pow2 k = of_int (2 ^ nat k)"
  by (simp add: pow2_def)

lemma pow2_mono: "a \<le> b \<Longrightarrow> pow2 a \<le> pow2 b"
  by (simp add: pow2_powi power_int_increasing)

lemma ilog2_bounds:
  assumes "0 < a"
  shows "pow2 (ilog2 a) \<le> a" and "a < pow2 (ilog2 a + 1)"
proof -
  obtain p q where pq: "quotient_of a = (p, q)" by fastforce
  then have q: "0 < q" by (rule quotient_of_denom_pos)
  from pq have a: "a = of_int p / of_int q" by (rule quotient_of_div)
  with assms q have p: "0 < p"
    by (simp add: zero_less_divide_iff)
  from bitlen_bounds [OF p] have bp: "(2::int) ^ nat (bitlen p - 1) \<le> p" "p < 2 ^ nat (bitlen p)"
    by simp_all
  from bitlen_bounds [OF q] have bq: "(2::int) ^ nat (bitlen q - 1) \<le> q" "q < 2 ^ nat (bitlen q)"
    by simp_all
  have lp: "1 \<le> bitlen p"
    using bitlen_eq_zero_iff [of p] bitlen_nonneg [of p] p by linarith
  have lq: "1 \<le> bitlen q"
    using bitlen_eq_zero_iff [of q] bitlen_nonneg [of q] q by linarith
  have P1: "pow2 (bitlen p - 1) \<le> of_int p"
  proof -
    from bp(1) have "(of_int ((2::int) ^ nat (bitlen p - 1)) :: rat) \<le> of_int p"
      by (simp only: of_int_le_iff)
    then show ?thesis using lp by (simp add: pow2_def)
  qed
  have P2: "(of_int p :: rat) < pow2 (bitlen p)"
  proof -
    from bp(2) have "(of_int p :: rat) < of_int ((2::int) ^ nat (bitlen p))"
      by (simp only: of_int_less_iff)
    then show ?thesis using lp by (simp add: pow2_def)
  qed
  have Q1: "pow2 (bitlen q - 1) \<le> of_int q"
  proof -
    from bq(1) have "(of_int ((2::int) ^ nat (bitlen q - 1)) :: rat) \<le> of_int q"
      by (simp only: of_int_le_iff)
    then show ?thesis using lq by (simp add: pow2_def)
  qed
  have Q2: "(of_int q :: rat) < pow2 (bitlen q)"
  proof -
    from bq(2) have "(of_int q :: rat) < of_int ((2::int) ^ nat (bitlen q))"
      by (simp only: of_int_less_iff)
    then show ?thesis using lq by (simp add: pow2_def)
  qed
  have qpos: "(0::rat) < of_int q" using q by simp
  have ppos: "(0::rat) < of_int p" using p by simp
  have low: "pow2 (bitlen p - bitlen q - 1) \<le> a"
  proof -
    have "pow2 (bitlen p - bitlen q - 1) = pow2 (bitlen p - 1) / pow2 (bitlen q)"
      using pow2_diff [of "bitlen p - 1" "bitlen q"] by (simp add: algebra_simps)
    also have "\<dots> \<le> of_int p / of_int q"
      using P1 Q2 qpos ppos pow2_pos [of "bitlen p - 1"]
      by (intro frac_le) simp_all
    finally show ?thesis by (simp add: a)
  qed
  have high: "a < pow2 (bitlen p - bitlen q + 1)"
  proof -
    have "of_int p / of_int q < pow2 (bitlen p) / pow2 (bitlen q - 1)"
      using P2 Q1 qpos ppos pow2_pos [of "bitlen q - 1"]
      by (intro frac_less) simp_all
    also have "\<dots> = pow2 (bitlen p - bitlen q + 1)"
      using pow2_diff [of "bitlen p" "bitlen q - 1"] by (simp add: algebra_simps)
    finally show ?thesis by (simp add: a)
  qed
  show "pow2 (ilog2 a) \<le> a"
    using low by (simp add: ilog2_def pq Let_def)
  show "a < pow2 (ilog2 a + 1)"
    using high by (auto simp: ilog2_def pq Let_def not_le)
qed

lemma round_half_even_error: "\<bar>of_int (round_half_even t) - t\<bar> \<le> 1 / 2"
proof -
  have "of_int \<lfloor>t\<rfloor> \<le> t" "t < of_int \<lfloor>t\<rfloor> + 1"
    by linarith+
  then show ?thesis
    by (auto simp: round_half_even_def Let_def abs_le_iff)
qed

lemma round32_error:
  assumes "round32 q = Finite r"
  shows "\<bar>r - q\<bar> \<le> \<bar>q\<bar> * pow2 (- 24) + pow2 (- 150)"
proof (cases "q = 0")
  case True
  with assms have "r = 0" by (simp add: round32_def)
  with True pow2_pos [of "- 150"] show ?thesis by simp
next
  case False
  define a where "a = \<bar>q\<bar>"
  define e where "e = max (ilog2 a) (- 126)"
  define ulp where "ulp = pow2 (e - 23)"
  define m where "m = round_half_even (a / ulp)"
  from False have apos: "0 < a" by (simp add: a_def)
  have upos: "0 < ulp" by (simp add: ulp_def pow2_pos)
  from assms False have r: "r = (if 0 < q then of_int m * ulp else - (of_int m * ulp))"
    by (simp add: round32_def Let_def a_def e_def ulp_def m_def split: if_splits)
  have "\<bar>r - q\<bar> = \<bar>of_int m * ulp - a\<bar>"
  proof (cases "0 < q")
    case True
    then show ?thesis by (simp add: r a_def)
  next
    case neg: False
    with False have "q < 0" by simp
    then have "r - q = - (of_int m * ulp - a)" by (simp add: r a_def)
    then show ?thesis by (simp only: abs_minus)
  qed
  also have "\<dots> = ulp * \<bar>of_int m - a / ulp\<bar>"
  proof -
    have "of_int m * ulp - a = ulp * (of_int m - a / ulp)"
      using upos by (simp add: field_simps)
    then show ?thesis using upos by (simp add: abs_mult)
  qed
  also have "\<dots> \<le> ulp * (1 / 2)"
    using round_half_even_error [of "a / ulp"] upos
    by (intro mult_left_mono) (simp_all add: m_def)
  also have "ulp * (1 / 2) = pow2 (e - 24)"
  proof -
    have "pow2 (e - 23) = pow2 (e - 24) * pow2 1"
      using pow2_add [of "e - 24" 1] by simp
    then show ?thesis by (simp add: ulp_def pow2_def)
  qed
  also have "pow2 (e - 24) \<le> a * pow2 (- 24) + pow2 (- 150)"
  proof (cases "- 126 \<le> ilog2 a")
    case True
    then have "e = ilog2 a" by (simp add: e_def)
    then have "pow2 (e - 24) = pow2 (ilog2 a) * pow2 (- 24)"
      using pow2_add [of "ilog2 a" "- 24"] by simp
    also have "\<dots> \<le> a * pow2 (- 24)"
      using ilog2_bounds(1) [OF apos] pow2_pos [of "- 24"]
      by (intro mult_right_mono) simp_all
    finally show ?thesis using pow2_pos [of "- 150"] by linarith
  next
    case False
    then have "e = - 126" by (simp add: e_def)
    then have "pow2 (e - 24) = pow2 (- 150)" by simp
    moreover have "0 \<le> a * pow2 (- 24)"
      using apos pow2_pos [of "- 24"] by simp
    ultimately show ?thesis by linarith
  qed
  finally show ?thesis by (simp add: a_def)
qed

subsection \<open>The error of one EMA step\<close>

lemma ema_arith:
  fixes d1 d2 d3 An Ao eta T :: rat
  assumes "d1 \<le> An * (13421773 / 1125899906842624) + eta"
    "d2 \<le> Ao * (13421773 / 281474976710656) + eta"
    "d3 \<le> d1 / 16777216 + d2 / 16777216 + An * (13421773 / 1125899906842624) + Ao * (13421773 / 281474976710656) + eta"
    "0 \<le> An" "0 \<le> Ao" "0 \<le> eta"
    "T \<le> d3 + d1 + d2 + (An / 335544320 + Ao / 83886080)"
  shows "T \<le> (An / 5 + 4 * Ao / 5) * (1 / 4194304) + 4 * eta"
proof -
  have a: "An * (13421773 / 1125899906842624) \<le> An / 80000000"
    using assms(4) by (simp add: field_simps)
  have b: "Ao * (13421773 / 281474976710656) \<le> Ao / 20000000"
    using assms(5) by (simp add: field_simps)
  from assms(1) a have d1: "d1 \<le> An / 80000000 + eta" by linarith
  from assms(2) b have d2: "d2 \<le> Ao / 20000000 + eta" by linarith
  from d1 d2 assms(4,5,6)
  have d12: "d1 / 16777216 + d2 / 16777216 \<le> An / 1000000000000 + Ao / 1000000000000 + eta"
    by linarith
  with assms(3) a b
  have d3: "d3 \<le> An / 1000000000000 + Ao / 1000000000000 + eta
      + An / 80000000 + Ao / 20000000 + eta"
    by linarith
  from d1 d2 d3 assms(4,5,7)
  have "T \<le> An / 500000000000 + An / 40000000 + An / 335544320
      + (Ao / 500000000000 + Ao / 10000000 + Ao / 83886080) + 4 * eta"
    by linarith
  with assms(4,5) have "T \<le> An / 20971520 + Ao / 5242880 + 4 * eta"
    by linarith
  moreover have "(An / 5 + 4 * Ao / 5) * (1 / 4194304) = An / 20971520 + Ao / 5242880"
    by (simp add: add_divide_distrib)
  ultimately show ?thesis
    by (simp only:)
qed

lemma f32_add_Finite:
  assumes "f32_add s t = Finite v"
  obtains a b where "s = Finite a" and "t = Finite b" and "round32 (a + b) = Finite v"
  using assms by (cases s; cases t) simp_all

lemma ema_step_error:
  assumes n: "\<bar>n\<bar> < 2 ^ 24"
    and fin: "f32_add (f32_mul (f32_of_int n) EMA_ALPHA)
                (f32_mul (Finite old) (f32_sub (f32_of_int 1) EMA_ALPHA)) = Finite v"
  shows "\<bar>v - (of_int n / 5 + 4 * old / 5)\<bar>
           \<le> (\<bar>of_int n\<bar> / 5 + 4 * \<bar>old\<bar> / 5) * pow2 (- 22) + pow2 (- 148)"
proof -
  define x :: rat where "x = of_int n * (13421773 / 67108864)"
  define y :: rat where "y = old * (13421773 / 16777216)"
  define eta where "eta = pow2 (- 150)"
  have eps: "pow2 (- 24) = 1 / 16777216" "pow2 (- 22) = 1 / 4194304"
    by (simp_all add: pow2_def)
  have eta: "0 \<le> eta" "pow2 (- 148) = 4 * eta"
    using pow2_pos [of "- 150"] pow2_add [of "- 150" 2]
    by (simp_all add: eta_def) (simp add: pow2_def)
  have t1: "f32_mul (f32_of_int n) EMA_ALPHA = round32 x"
    by (simp add: f32_of_int_def round32_of_int [OF n] x_def EMA_ALPHA_value)
  have t2: "f32_mul (Finite old) (f32_sub (f32_of_int 1) EMA_ALPHA) = round32 y"
    by (simp add: one_minus_alpha one_minus_alpha_value y_def)
  from fin obtain r1 r2 where r1: "round32 x = Finite r1" and r2: "round32 y = Finite r2"
    and r3: "round32 (r1 + r2) = Finite v"
    unfolding t1 t2 by (rule f32_add_Finite)
  define An :: rat where "An = \<bar>of_int n\<bar>"
  define Ao where "Ao = \<bar>old\<bar>"
  define d1 where "d1 = \<bar>r1 - x\<bar>"
  define d2 where "d2 = \<bar>r2 - y\<bar>"
  define d3 where "d3 = \<bar>v - (r1 + r2)\<bar>"
  define R where "R = \<bar>r1 + r2\<bar>"
  have ax: "\<bar>x\<bar> = An * (13421773 / 67108864)"
    by (simp add: x_def An_def abs_mult)
  have ay: "\<bar>y\<bar> = Ao * (13421773 / 16777216)"
    by (simp add: y_def Ao_def abs_mult)
  have e1: "d1 \<le> An * (13421773 / 67108864) * (1 / 16777216) + eta"
    using round32_error [OF r1] by (simp add: d1_def ax eps eta_def)
  have e2: "d2 \<le> Ao * (13421773 / 16777216) * (1 / 16777216) + eta"
    using round32_error [OF r2] by (simp add: d2_def ay eps eta_def)
  have e3: "d3 \<le> R * (1 / 16777216) + eta"
    using round32_error [OF r3] by (simp add: d3_def R_def eps eta_def)
  have R: "R \<le> d1 + d2 + An * (13421773 / 67108864) + Ao * (13421773 / 16777216)"
  proof -
    have "r1 + r2 = (r1 - x) + (r2 - y) + x + y" by simp
    then have "R \<le> \<bar>r1 - x\<bar> + \<bar>r2 - y\<bar> + \<bar>x\<bar> + \<bar>y\<bar>"
      unfolding R_def by linarith
    then show ?thesis by (simp add: d1_def d2_def ax ay)
  qed
  have c: "\<bar>x + y - (of_int n / 5 + 4 * old / 5)\<bar> \<le> An / 335544320 + Ao / 83886080"
  proof -
    have "x + y - (of_int n / 5 + 4 * old / 5) = of_int n / 335544320 + old / 83886080"
      by (simp add: x_def y_def field_simps)
    then show ?thesis
      unfolding An_def Ao_def by (simp add: abs_le_iff) linarith
  qed
  have "v - (of_int n / 5 + 4 * old / 5)
      = (v - (r1 + r2)) + (r1 - x) + (r2 - y) + (x + y - (of_int n / 5 + 4 * old / 5))"
    by simp
  then have "\<bar>v - (of_int n / 5 + 4 * old / 5)\<bar>
      \<le> d3 + d1 + d2 + \<bar>x + y - (of_int n / 5 + 4 * old / 5)\<bar>"
    unfolding d1_def d2_def d3_def by linarith
  with c have total: "\<bar>v - (of_int n / 5 + 4 * old / 5)\<bar>
      \<le> d3 + d1 + d2 + (An / 335544320 + Ao / 83886080)"
    by linarith
  have pos: "0 \<le> An" "0 \<le> Ao" by (simp_all add: An_def Ao_def)
  from R have "R * (1 / 16777216)
      \<le> (d1 + d2 + An * (13421773 / 67108864) + Ao * (13421773 / 16777216)) * (1 / 16777216)"
    by (rule mult_right_mono) simp
  with e3 have e3': "d3 \<le> d1 / 16777216 + d2 / 16777216
      + An * (13421773 / 1125899906842624) + Ao * (13421773 / 281474976710656) + eta"
    by (simp add: algebra_simps)
  have e1': "d1 \<le> An * (13421773 / 1125899906842624) + eta"
    using e1 by simp
  have e2': "d2 \<le> Ao * (13421773 / 281474976710656) + eta"
    using e2 by simp
  from ema_arith [OF e1' e2' e3' pos eta(1) total]
  show ?thesis
    by (simp add: eps eta(2) An_def Ao_def)
qed

section \<open>C1: a probe that sees one execution from /dev/shm\<close>











text \<open>
  The same record with the name in quotes does not pass the grep of the execve
  query: the pipe delivers nothing, and the probe counts no execution.
\<close>

lemma quoted_name_not_delivered:
  "exec_query [devshm_quoted_line] = []
   \<and> map_option (\<lambda>s. (devshm_executions s, anomalies s, risk_score s, risk_level s))
       (probe_audit (example_header zero_baseline) example_externals
          (exec_host devshm_quoted_line None None) 3600)
     = Some (0, [], 0, ''low'')"
  by code_simp

section \<open>C2: anomaly detection without a usable baseline\<close>

text \<open>
  C2.  When the baseline pointer is null, or the baseline has fewer than 5 samples,
  \<open>detect_anomalies\<close> returns the summary it was given: no anomaly is added and the
  four baseline-comparison fields keep their values.  In a probe that loads no
  baseline, or one with fewer than 5 samples, the returned summary therefore has no
  anomaly and the four fields are zero, as \<open>calloc\<close> left them.
\<close>

theorem detect_anomalies_noop:
  "(baseline = None \<or> (\<exists>b. baseline = Some b \<and> sample_count b < 5)
      \<longrightarrow> detect_anomalies h now s baseline = s
        \<and> anomalies (detect_anomalies h now s baseline) = anomalies s
        \<and> auth_baseline_avg (detect_anomalies h now s baseline) = auth_baseline_avg s
        \<and> auth_deviation_pct (detect_anomalies h now s baseline) = auth_deviation_pct s
        \<and> sudo_baseline_avg (detect_anomalies h now s baseline) = sudo_baseline_avg s
        \<and> sudo_deviation_pct (detect_anomalies h now s baseline) = sudo_deviation_pct s)
   \<and> (probe_audit h x w win = Some s'
       \<and> (\<not> fst (load_audit_baseline h (baseline_system_file w) (baseline_user_file w)
                   (replicate (sizeof_baseline h) (CHR 0x00)))
          \<or> sample_count (baseline_of_bytes h (snd (load_audit_baseline h
                   (baseline_system_file w) (baseline_user_file w)
                   (replicate (sizeof_baseline h) (CHR 0x00))))) < 5)
      \<longrightarrow> anomalies s' = [] \<and> auth_baseline_avg s' = Finite 0
        \<and> auth_deviation_pct s' = Finite 0 \<and> sudo_baseline_avg s' = Finite 0
        \<and> sudo_deviation_pct s' = Finite 0)"
proof (rule conjI; rule impI)
  assume "baseline = None \<or> (\<exists>b. baseline = Some b \<and> sample_count b < 5)"
  then have "detect_anomalies h now s baseline = s"
    by (rule detect_anomalies_skipped)
  then show "detect_anomalies h now s baseline = s
        \<and> anomalies (detect_anomalies h now s baseline) = anomalies s
        \<and> auth_baseline_avg (detect_anomalies h now s baseline) = auth_baseline_avg s
        \<and> auth_deviation_pct (detect_anomalies h now s baseline) = auth_deviation_pct s
        \<and> sudo_baseline_avg (detect_anomalies h now s baseline) = sudo_baseline_avg s
        \<and> sudo_deviation_pct (detect_anomalies h now s baseline) = sudo_deviation_pct s"
    by simp
next
  assume "probe_audit h x w win = Some s'
       \<and> (\<not> fst (load_audit_baseline h (baseline_system_file w) (baseline_user_file w)
                   (replicate (sizeof_baseline h) (CHR 0x00)))
          \<or> sample_count (baseline_of_bytes h (snd (load_audit_baseline h
                   (baseline_system_file w) (baseline_user_file w)
                   (replicate (sizeof_baseline h) (CHR 0x00))))) < 5)"
  then show "anomalies s' = [] \<and> auth_baseline_avg s' = Finite 0
        \<and> auth_deviation_pct s' = Finite 0 \<and> sudo_baseline_avg s' = Finite 0
        \<and> sudo_deviation_pct s' = Finite 0"
    using probe_audit_no_detection [of h x w win s'] by blast
qed

theorem detect_anomalies_noop_witness:
  "sample_count (zero_baseline\<lparr>sample_count := 4\<rparr>) < 5
   \<and> detect_anomalies (example_header zero_baseline) 1767386347
        (calloc_summary\<lparr>devshm_executions := 1\<rparr>)
        (Some (zero_baseline\<lparr>sample_count := 4\<rparr>))
      = calloc_summary\<lparr>devshm_executions := 1\<rparr>
   \<and> anomalies (detect_anomalies (example_header zero_baseline) 1767386347
        (calloc_summary\<lparr>devshm_executions := 1\<rparr>)
        (Some (zero_baseline\<lparr>sample_count := 4\<rparr>))) = []"
proof -
  let ?b = "zero_baseline\<lparr>sample_count := 4\<rparr>"
  let ?s = "calloc_summary\<lparr>devshm_executions := 1\<rparr>"
  have small: "sample_count ?b < 5"
    by simp
  then have pre: "Some ?b = None \<or> (\<exists>b. Some ?b = Some b \<and> sample_count b < 5)"
    by simp
  from detect_anomalies_noop [where baseline = "Some ?b" and s = ?s
      and h = "example_header zero_baseline" and now = 1767386347,
      THEN conjunct1, THEN mp, OF pre]
  have "detect_anomalies (example_header zero_baseline) 1767386347 ?s (Some ?b) = ?s
      \<and> anomalies (detect_anomalies (example_header zero_baseline) 1767386347 ?s (Some ?b))
          = anomalies ?s"
    by blast
  with small show ?thesis
    by (simp add: calloc_summary_def)
qed

section \<open>C3: the order of the terms of the risk score\<close>

lemma f32_to_int_of_int: "f32_to_int (Finite (of_int j)) = j"
  by (simp add: f32_to_int_def)

lemma scaled_accumulator:
  assumes "\<bar>n\<bar> * 5 < 2 ^ 24" and "k \<in> {2, 3, 5}"
  shows "f32_to_int (f32_mul (f32_of_int n) (Finite (of_int k))) = n * k"
proof -
  from assms have n: "\<bar>n\<bar> < 2 ^ 24" and nk: "\<bar>n * k\<bar> < 2 ^ 24"
    by (auto simp: abs_mult)
  have "f32_mul (f32_of_int n) (Finite (of_int k)) = round32 (of_int (n * k))"
    by (simp add: f32_of_int_def round32_of_int [OF n])
  also have "\<dots> = Finite (of_int (n * k))"
    by (rule round32_of_int [OF nk])
  finally show ?thesis
    by (simp only: f32_to_int_of_int)
qed

lemma foldl_sensitive_files:
  "foldl (\<lambda>sc f. if suspicious f then sc + 2 + 5 else sc + 2) (a::int) fs
     = a + sum_list (map (\<lambda>f. if suspicious f then 7 else 2) fs)"
  by (induction fs arbitrary: a) auto

lemma risk_score_formula:
  assumes "\<bar>auth_failures s + (if brute_force_detected s then 10 else 0)\<bar> * 5 < 2 ^ 24"
  shows "risk_score (calculate_risk_score s) =
      (if f32_less (Finite 500) (auth_deviation_pct s) then 5
       else if f32_less (Finite 200) (auth_deviation_pct s) then 3
       else if f32_less (Finite 100) (auth_deviation_pct s) then 2 else 1)
        * (auth_failures s + (if brute_force_detected s then 10 else 0))
      + (if f32_less (Finite 200) (sudo_deviation_pct s) then 5 else 0)
      + 2 * su_count s + 3 * permission_changes s + 3 * ownership_changes s
      + sum_list (map (\<lambda>f. if suspicious f then 7 else 2) (sensitive_files s))
      + 4 * tmp_executions s + 6 * devshm_executions s + 10 * suspicious_exec_count s
      + selinux_avc_denials s + apparmor_denials s"
proof -
  define acc where "acc = auth_failures s + (if brute_force_detected s then 10 else 0)"
  have acc: "(if brute_force_detected s then 0 + auth_failures s * 1 + 10
              else 0 + auth_failures s * 1) = acc"
    by (simp add: acc_def)
  from assms have b: "\<bar>acc\<bar> * 5 < 2 ^ 24" by (simp add: acc_def)
  have m5: "f32_to_int (f32_mul (f32_of_int acc) (Finite 5)) = acc * 5"
    using scaled_accumulator [OF b, of 5] by simp
  have m3: "f32_to_int (f32_mul (f32_of_int acc) (Finite 3)) = acc * 3"
    using scaled_accumulator [OF b, of 3] by simp
  have m2: "f32_to_int (f32_mul (f32_of_int acc) (Finite 2)) = acc * 2"
    using scaled_accumulator [OF b, of 2] by simp
  show ?thesis
    unfolding calculate_risk_score_def Let_def acc foldl_sensitive_files m5 m3 m2
    by (simp add: acc_def)
qed

text \<open>
  C3.  \<open>calculate_risk_score\<close> multiplies the accumulator that holds the
  \<open>auth_failures\<close> term and the brute-force bonus by 5 if \<open>auth_deviation_pct\<close>
  exceeds 500, else by 3 if it exceeds 200, else by 2 if it exceeds 100, else by 1,
  and only then adds the sudo, su, file, exec and security-framework terms, which
  are not multiplied.  (The product is computed in single precision; it is exact
  while five times the accumulator stays below \<open>2 ^ 24\<close>.)  In particular, with
  20 failures, brute force detected, a deviation of 900 and nothing else, the score
  is 150 and the level critical.
\<close>

theorem risk_score_multiplier_order:
  "(\<bar>auth_failures s + (if brute_force_detected s then 10 else 0)\<bar> * 5 < 2 ^ 24 \<longrightarrow>
    risk_score (calculate_risk_score s) =
      (if f32_less (Finite 500) (auth_deviation_pct s) then 5
       else if f32_less (Finite 200) (auth_deviation_pct s) then 3
       else if f32_less (Finite 100) (auth_deviation_pct s) then 2 else 1)
        * (auth_failures s + (if brute_force_detected s then 10 else 0))
      + (if f32_less (Finite 200) (sudo_deviation_pct s) then 5 else 0)
      + 2 * su_count s + 3 * permission_changes s + 3 * ownership_changes s
      + sum_list (map (\<lambda>f. if suspicious f then 7 else 2) (sensitive_files s))
      + 4 * tmp_executions s + 6 * devshm_executions s + 10 * suspicious_exec_count s
      + selinux_avc_denials s + apparmor_denials s)
   \<and> (auth_failures s = 20 \<and> brute_force_detected s \<and> auth_deviation_pct s = Finite 900
       \<and> sudo_deviation_pct s = Finite 0 \<and> su_count s = 0
       \<and> permission_changes s = 0 \<and> ownership_changes s = 0 \<and> sensitive_files s = []
       \<and> tmp_executions s = 0 \<and> devshm_executions s = 0 \<and> suspicious_exec_count s = 0
       \<and> selinux_avc_denials s = 0 \<and> apparmor_denials s = 0 \<longrightarrow>
      risk_score (calculate_risk_score s) = 150
      \<and> risk_level (calculate_risk_score s) = ''critical'')"
proof (rule conjI; rule impI)
  assume "\<bar>auth_failures s + (if brute_force_detected s then 10 else 0)\<bar> * 5 < 2 ^ 24"
  then show "risk_score (calculate_risk_score s) =
      (if f32_less (Finite 500) (auth_deviation_pct s) then 5
       else if f32_less (Finite 200) (auth_deviation_pct s) then 3
       else if f32_less (Finite 100) (auth_deviation_pct s) then 2 else 1)
        * (auth_failures s + (if brute_force_detected s then 10 else 0))
      + (if f32_less (Finite 200) (sudo_deviation_pct s) then 5 else 0)
      + 2 * su_count s + 3 * permission_changes s + 3 * ownership_changes s
      + sum_list (map (\<lambda>f. if suspicious f then 7 else 2) (sensitive_files s))
      + 4 * tmp_executions s + 6 * devshm_executions s + 10 * suspicious_exec_count s
      + selinux_avc_denials s + apparmor_denials s"
    by (rule risk_score_formula)
next
  assume p: "auth_failures s = 20 \<and> brute_force_detected s \<and> auth_deviation_pct s = Finite 900
       \<and> sudo_deviation_pct s = Finite 0 \<and> su_count s = 0
       \<and> permission_changes s = 0 \<and> ownership_changes s = 0 \<and> sensitive_files s = []
       \<and> tmp_executions s = 0 \<and> devshm_executions s = 0 \<and> suspicious_exec_count s = 0
       \<and> selinux_avc_denials s = 0 \<and> apparmor_denials s = 0"
  then have "\<bar>auth_failures s + (if brute_force_detected s then 10 else 0)\<bar> * 5 < 2 ^ 24"
    by simp
  from risk_score_formula [OF this] p
  have sc: "risk_score (calculate_risk_score s) = 150"
    by simp
  then show "risk_score (calculate_risk_score s) = 150
      \<and> risk_level (calculate_risk_score s) = ''critical''"
    by (simp add: calculate_risk_score_level risk_level_of_def)
qed

theorem risk_score_multiplier_order_witness:
  "risk_score (calculate_risk_score
      (calloc_summary\<lparr>auth_failures := 20, brute_force_detected := True,
         auth_deviation_pct := Finite 900\<rparr>)) = 150
   \<and> risk_level (calculate_risk_score
      (calloc_summary\<lparr>auth_failures := 20, brute_force_detected := True,
         auth_deviation_pct := Finite 900\<rparr>)) = ''critical''"
proof -
  let ?s = "calloc_summary\<lparr>auth_failures := 20, brute_force_detected := True,
         auth_deviation_pct := Finite 900\<rparr>"
  have p: "auth_failures ?s = 20 \<and> brute_force_detected ?s \<and> auth_deviation_pct ?s = Finite 900
       \<and> sudo_deviation_pct ?s = Finite 0 \<and> su_count ?s = 0
       \<and> permission_changes ?s = 0 \<and> ownership_changes ?s = 0 \<and> sensitive_files ?s = []
       \<and> tmp_executions ?s = 0 \<and> devshm_executions ?s = 0 \<and> suspicious_exec_count ?s = 0
       \<and> selinux_avc_denials ?s = 0 \<and> apparmor_denials ?s = 0"
    by (simp add: calloc_summary_def)
  from risk_score_multiplier_order [of ?s, THEN conjunct2, THEN mp, OF p]
  show ?thesis .
qed

section \<open>C4: a repeated path when the table of sensitive files is full\<close>

text \<open>
  C4.  The claim asks that a PATH line for a path already in \<open>sensitive_files\<close>
  increments that entry's count whether or not the table is full.  The code tests
  \<open>sensitive_file_count < MAX_AUDIT_FILES\<close> before it looks the path up, so once the
  table is full a line changes nothing in the summary, and the count of a path that
  is in the table stays as it is.
\<close>

theorem file_line_full_table:
  assumes "MAX_AUDIT_FILES h \<le> sensitive_file_count s"
  shows "fst (file_line h x (s, cache) line) = s"
  using assms
  by (simp add: file_line_def Let_def case_prod_beta split: option.splits)

theorem file_line_full_table_witness:
  "map (\<lambda>f. (path f, fa_count f))
     (sensitive_files (fst (parse_file_events small_header example_externals
        (calloc_summary, [])
        (Some [file_path_line ''631'' ''/etc/passwd'', file_path_line ''632'' ''/etc/shadow'']))))
     = [(''/etc/passwd'', 1), (''/etc/shadow'', 1)]
   \<and> MAX_AUDIT_FILES small_header
       \<le> sensitive_file_count (fst (parse_file_events small_header example_externals
            (calloc_summary, [])
            (Some [file_path_line ''631'' ''/etc/passwd'', file_path_line ''632'' ''/etc/shadow''])))
   \<and> fst (file_line small_header example_externals
        (fst (parse_file_events small_header example_externals (calloc_summary, [])
           (Some [file_path_line ''631'' ''/etc/passwd'', file_path_line ''632'' ''/etc/shadow''])),
         snd (parse_file_events small_header example_externals (calloc_summary, [])
           (Some [file_path_line ''631'' ''/etc/passwd'', file_path_line ''632'' ''/etc/shadow''])))
        (file_path_line ''633'' ''/etc/passwd''))
     = fst (parse_file_events small_header example_externals (calloc_summary, [])
           (Some [file_path_line ''631'' ''/etc/passwd'', file_path_line ''632'' ''/etc/shadow'']))"
proof -
  let ?st = "parse_file_events small_header example_externals (calloc_summary, [])
     (Some [file_path_line ''631'' ''/etc/passwd'', file_path_line ''632'' ''/etc/shadow''])"
  have a: "map (\<lambda>f. (path f, fa_count f)) (sensitive_files (fst ?st))
      = [(''/etc/passwd'', 1), (''/etc/shadow'', 1)]"
    by code_simp
  have b: "MAX_AUDIT_FILES small_header \<le> sensitive_file_count (fst ?st)"
    by code_simp
  from a b file_line_full_table [OF b, of example_externals "snd ?st"
      "file_path_line ''633'' ''/etc/passwd''"]
  show ?thesis by (intro conjI)
qed

text \<open>
  The same three lines read from the start: with room for two entries the second
  line for /etc/passwd is not counted, with room for more it is.
\<close>

lemma repeated_path_not_counted_when_full:
  "map (\<lambda>f. (path f, fa_count f))
     (sensitive_files (fst (parse_file_events small_header example_externals
        (calloc_summary, [])
        (Some [file_path_line ''631'' ''/etc/passwd'', file_path_line ''632'' ''/etc/shadow'',
               file_path_line ''633'' ''/etc/passwd'']))))
     = [(''/etc/passwd'', 1), (''/etc/shadow'', 1)]
   \<and> map (\<lambda>f. (path f, fa_count f))
     (sensitive_files (fst (parse_file_events (example_header zero_baseline) example_externals
        (calloc_summary, [])
        (Some [file_path_line ''631'' ''/etc/passwd'', file_path_line ''632'' ''/etc/shadow'',
               file_path_line ''633'' ''/etc/passwd'']))))
     = [(''/etc/passwd'', 2), (''/etc/shadow'', 1)]"
  by code_simp

section \<open>C5: loading a baseline\<close>

text \<open>
  C5 (amended).  \<open>load_audit_baseline\<close> returns false when no file can be opened,
  on every short read, and for every file whose first 8 bytes are not \<open>SNTLAUDT\<close>.
  A failed load does not in general leave the out-parameter unchanged, since the
  record is read into the out-parameter itself.  When no file can be opened the
  out-parameter is unchanged.  After a short read it holds the bytes that were read,
  followed by what it held before beyond them: it is unchanged exactly if the file
  is a prefix of what it held (an empty file, for one).  After a full read with a
  bad magic it holds the first \<open>sizeof(audit_baseline_t)\<close> bytes of the file.
\<close>

theorem load_audit_baseline_rejects:
  "load_audit_baseline h None None mem = (False, mem)
   \<and> (\<forall>content.
        (case system_file of Some f \<Rightarrow> Some f | None \<Rightarrow> user_file) = Some content
        \<longrightarrow> (length content < sizeof_baseline h
               \<longrightarrow> load_audit_baseline h system_file user_file mem
                     = (False, content @ drop (length content) mem)
                 \<and> (snd (load_audit_baseline h system_file user_file mem) = mem
                      \<longleftrightarrow> prefix content mem))
          \<and> (sizeof_baseline h \<le> length content \<and> take 8 content \<noteq> AUDIT_BASELINE_MAGIC
               \<longrightarrow> load_audit_baseline h system_file user_file mem
                     = (False, take (sizeof_baseline h) content))
          \<and> (take 8 content \<noteq> AUDIT_BASELINE_MAGIC
               \<longrightarrow> fst (load_audit_baseline h system_file user_file mem) = False))"
proof -
  have bad: "take 8 (take (sizeof_baseline h) content) \<noteq> AUDIT_BASELINE_MAGIC"
    if "take 8 content \<noteq> AUDIT_BASELINE_MAGIC" for content
  proof (cases "8 \<le> sizeof_baseline h")
    case True
    then show ?thesis using that by (simp add: min_def)
  next
    case False
    then have "length (take 8 (take (sizeof_baseline h) content)) < 8" by simp
    moreover have "length AUDIT_BASELINE_MAGIC = 8" by (simp add: AUDIT_BASELINE_MAGIC_def)
    ultimately show ?thesis by (metis less_irrefl)
  qed
  have none: "load_audit_baseline h None None mem = (False, mem)"
    by (simp add: load_audit_baseline_def)
  have short: "load_audit_baseline h system_file user_file mem
        = (False, content @ drop (length content) mem)"
    if "(case system_file of Some f \<Rightarrow> Some f | None \<Rightarrow> user_file) = Some content"
      and "length content < sizeof_baseline h" for content
    using that by (simp add: load_audit_baseline_def)
  have same: "content @ drop (length content) mem = mem \<longleftrightarrow> prefix content mem"
    for content :: string
  proof
    assume "content @ drop (length content) mem = mem"
    then show "prefix content mem" by (metis prefixI)
  next
    assume "prefix content mem"
    then show "content @ drop (length content) mem = mem" by (auto simp: prefix_def)
  qed
  have full: "load_audit_baseline h system_file user_file mem
        = (False, take (sizeof_baseline h) content)"
    if "(case system_file of Some f \<Rightarrow> Some f | None \<Rightarrow> user_file) = Some content"
      and "sizeof_baseline h \<le> length content" and "take 8 content \<noteq> AUDIT_BASELINE_MAGIC"
    for content
    using that(1,2) bad [OF that(3)]
    by (simp add: load_audit_baseline_def Let_def del: take_take)
  have rejected: "fst (load_audit_baseline h system_file user_file mem) = False"
    if "(case system_file of Some f \<Rightarrow> Some f | None \<Rightarrow> user_file) = Some content"
      and "take 8 content \<noteq> AUDIT_BASELINE_MAGIC" for content
  proof (cases "length content < sizeof_baseline h")
    case True
    from short [OF that(1) True] show ?thesis by simp
  next
    case False
    then have "sizeof_baseline h \<le> length content" by simp
    from full [OF that(1) this that(2)] show ?thesis by simp
  qed
  show ?thesis
  proof (intro conjI allI impI)
    show "load_audit_baseline h None None mem = (False, mem)"
      by (rule none)
  next
    fix content
    assume o: "(case system_file of Some f \<Rightarrow> Some f | None \<Rightarrow> user_file) = Some content"
      and l: "length content < sizeof_baseline h"
    from short [OF o l]
    show "load_audit_baseline h system_file user_file mem
        = (False, content @ drop (length content) mem)" .
    from short [OF o l]
    show "snd (load_audit_baseline h system_file user_file mem) = mem
        \<longleftrightarrow> prefix content mem"
      by (simp add: same)
  next
    fix content
    assume o: "(case system_file of Some f \<Rightarrow> Some f | None \<Rightarrow> user_file) = Some content"
      and f: "sizeof_baseline h \<le> length content \<and> take 8 content \<noteq> AUDIT_BASELINE_MAGIC"
    from f have "sizeof_baseline h \<le> length content" "take 8 content \<noteq> AUDIT_BASELINE_MAGIC"
      by simp_all
    from full [OF o this]
    show "load_audit_baseline h system_file user_file mem
        = (False, take (sizeof_baseline h) content)" .
  next
    fix content
    assume o: "(case system_file of Some f \<Rightarrow> Some f | None \<Rightarrow> user_file) = Some content"
      and m: "take 8 content \<noteq> AUDIT_BASELINE_MAGIC"
    from rejected [OF o m]
    show "fst (load_audit_baseline h system_file user_file mem) = False" .
  qed
qed

text \<open>
  Three files against a zeroed out-parameter of 56 bytes: a file of the record's
  size that starts with \<open>GARBAGE!\<close>, a file that holds the 8 bytes of the magic and
  nothing more, and an empty file.  All three are rejected; the first two leave
  their bytes in the out-parameter, the third leaves it as it was.
\<close>

theorem load_audit_baseline_rejects_witness:
  "take 8 (''GARBAGE!'' @ replicate 48 (CHR 0x00)) \<noteq> AUDIT_BASELINE_MAGIC
   \<and> load_audit_baseline (example_header zero_baseline)
        (Some (''GARBAGE!'' @ replicate 48 (CHR 0x00))) None (replicate 56 (CHR 0x00))
      = (False, ''GARBAGE!'' @ replicate 48 (CHR 0x00))
   \<and> load_audit_baseline (example_header zero_baseline)
        None (Some ''SNTLAUDT'') (replicate 56 (CHR 0x00))
      = (False, ''SNTLAUDT'' @ replicate 48 (CHR 0x00))
   \<and> load_audit_baseline (example_header zero_baseline)
        (Some []) None (replicate 56 (CHR 0x00))
      = (False, replicate 56 (CHR 0x00))
   \<and> load_audit_baseline (example_header zero_baseline)
        None None (replicate 56 (CHR 0x00))
      = (False, replicate 56 (CHR 0x00))"
proof -
  let ?F = "''GARBAGE!'' @ replicate 48 (CHR 0x00)"
  let ?H = "example_header zero_baseline"
  let ?M = "replicate 56 (CHR 0x00)"
  have sz: "sizeof_baseline ?H = 56"
    by (simp add: example_header_def)
  have m: "take 8 ?F \<noteq> AUDIT_BASELINE_MAGIC"
    by (simp add: AUDIT_BASELINE_MAGIC_def)
  have l: "sizeof_baseline ?H \<le> length ?F"
    by (simp add: sz)
  have t: "take (sizeof_baseline ?H) ?F = ?F"
    by (simp add: sz)
  have n: "load_audit_baseline ?H None None ?M = (False, ?M)"
    by (rule load_audit_baseline_rejects [where h = ?H and mem = ?M, THEN conjunct1])
  have "load_audit_baseline ?H (Some ?F) None ?M = (False, take (sizeof_baseline ?H) ?F)"
    using load_audit_baseline_rejects [where system_file = "Some ?F" and user_file = None
        and h = ?H and mem = ?M, THEN conjunct2, THEN spec, of ?F] m l
    by (simp only: option.case simp_thms)
  then have f: "load_audit_baseline ?H (Some ?F) None ?M = (False, ?F)"
    by (simp only: t)
  have "load_audit_baseline ?H None (Some ''SNTLAUDT'') ?M
      = (False, ''SNTLAUDT'' @ drop (length ''SNTLAUDT'') ?M)"
    using load_audit_baseline_rejects [where system_file = None
        and user_file = "Some ''SNTLAUDT''" and h = ?H and mem = ?M, THEN conjunct2,
        THEN spec, of "''SNTLAUDT''"]
    by (simp add: sz)
  then have s: "load_audit_baseline ?H None (Some ''SNTLAUDT'') ?M
      = (False, ''SNTLAUDT'' @ replicate 48 (CHR 0x00))"
    by simp
  have "load_audit_baseline ?H (Some []) None ?M = (False, [] @ drop (length ([]::string)) ?M)"
    using load_audit_baseline_rejects [where system_file = "Some []" and user_file = None
        and h = ?H and mem = ?M, THEN conjunct2, THEN spec, of "[]"]
    by (simp add: sz)
  then have e: "load_audit_baseline ?H (Some []) None ?M = (False, ?M)"
    by simp
  from m f s e n show ?thesis by (intro conjI)
qed

text \<open>
  C5, the claim as stated fails: a file of the record's size that starts with
  \<open>GARBAGE!\<close> is rejected, and the out-parameter, zeroed before the call, holds the
  file's bytes afterwards.
\<close>

theorem load_audit_baseline_overwrites:
  "load_audit_baseline (example_header zero_baseline)
       (Some (''GARBAGE!'' @ replicate 48 (CHR 0x00))) None (replicate 56 (CHR 0x00))
     = (False, ''GARBAGE!'' @ replicate 48 (CHR 0x00))
   \<and> ''GARBAGE!'' @ replicate 48 (CHR 0x00) \<noteq> replicate 56 (CHR 0x00)"
  by code_simp

section \<open>C6: the risk level of a probe\<close>

text \<open>
  C6 (amended).  A summary that \<open>probe_audit\<close> returns after reading the audit log
  has \<open>enabled\<close> set and a \<open>risk_level\<close> that is one of low, medium, high and
  critical, namely the classification of its \<open>risk_score\<close> (critical from 31, high
  from 16, medium from 6, low below), which is monotone.  The summary of the early
  return for an unreadable audit log has \<open>enabled\<close> false, \<open>risk_score\<close> 0 and an
  empty \<open>risk_level\<close>: \<open>calculate_risk_score\<close> is not run on it.
\<close>

theorem probe_audit_risk_level:
  assumes "probe_audit h x w win = Some s"
  shows "(if audit_log_readable w
          then enabled s \<and> risk_level s = risk_level_of (risk_score s)
               \<and> risk_level s \<in> {''low'', ''medium'', ''high'', ''critical''}
          else \<not> enabled s \<and> risk_score s = 0 \<and> risk_level s = [])
    \<and> (\<forall>a b. a \<le> b \<longrightarrow> risk_rank (risk_level_of a) \<le> risk_rank (risk_level_of b))
    \<and> (\<forall>n. risk_level_of n =
          (if n \<ge> 31 then ''critical'' else if n \<ge> 16 then ''high''
           else if n \<ge> 6 then ''medium'' else ''low''))"
proof (cases "audit_log_readable w")
  case True
  with probe_audit_readable [OF assms] risk_level_of_cases [of "risk_score s"]
  show ?thesis
    by (simp add: risk_level_of_mono) (simp add: risk_level_of_def)
next
  case False
  with assms have "s = calloc_summary\<lparr>enabled := True, period_seconds := win,
      capture_time := time_now w, enabled := False\<rparr>"
    by (auto simp: probe_audit_def Let_def split: if_splits)
  with False show ?thesis
    by (simp add: risk_level_of_mono calloc_summary_def) (simp add: risk_level_of_def)
qed

theorem probe_audit_risk_level_witness:
  "\<exists>s. probe_audit (example_header zero_baseline) example_externals quiet_host 3600 = Some s
       \<and> audit_log_readable quiet_host
       \<and> enabled s \<and> risk_level s = risk_level_of (risk_score s)
       \<and> risk_level s \<in> {''low'', ''medium'', ''high'', ''critical''}"
proof -
  have "probe_audit (example_header zero_baseline) example_externals quiet_host 3600 \<noteq> None"
    by (simp add: probe_audit_def quiet_host_def Let_def split: prod.splits)
  then obtain s where
    eq: "probe_audit (example_header zero_baseline) example_externals quiet_host 3600 = Some s"
    by auto
  have r: "audit_log_readable quiet_host"
    by (simp add: quiet_host_def)
  from probe_audit_risk_level [OF eq] r eq show ?thesis
    by simp
qed

text \<open>
  C6, the claim as stated fails on the early return: with the audit log unreadable
  the returned summary has an empty \<open>risk_level\<close>, which is none of the four levels
  and not the classification of its \<open>risk_score\<close>.
\<close>

theorem probe_audit_unreadable_risk_level:
  "(case probe_audit (example_header zero_baseline) example_externals
            (quiet_host\<lparr>audit_log_readable := False\<rparr>) 3600 of
       None \<Rightarrow> False
     | Some s \<Rightarrow> \<not> enabled s
         \<and> risk_level s \<notin> {''low'', ''medium'', ''high'', ''critical''}
         \<and> risk_level s \<noteq> risk_level_of (risk_score s))"
  by (simp add: probe_audit_def quiet_host_def calloc_summary_def risk_level_of_def)

section \<open>C7: updating the baseline\<close>

text \<open>
  C7.  \<open>update_audit_baseline\<close> adds exactly 1 to \<open>sample_count\<close> and sets \<open>updated\<close>.
  On a baseline with \<open>sample_count = 0\<close> it sets the magic, the version and
  \<open>created\<close>, and each of the five averages to the sample's counter converted to
  \<open>float\<close> (the counter itself when it is below \<open>2 ^ 24\<close>).  Otherwise it leaves
  those three fields and sets each average to \<open>0.2f * current + 0.8f * old\<close>,
  evaluated in single precision: \<open>EMA_ALPHA\<close> is the \<open>float\<close> nearest to 0.2 and
  \<open>1 - EMA_ALPHA\<close> the one nearest to 0.8.  A finite result differs from the exact
  \<open>0.2 * current + 0.8 * old\<close> by at most \<open>2 ^ -22\<close> of
  \<open>0.2 * |current| + 0.8 * |old|\<close>, plus \<open>2 ^ -148\<close> for underflow.
\<close>

theorem update_audit_baseline_ema:
  "sample_count (update_audit_baseline now b cur) = sample_count b + 1
   \<and> updated (update_audit_baseline now b cur) = now
   \<and> (sample_count b = 0 \<longrightarrow>
        magic (update_audit_baseline now b cur) = ''SNTLAUDT''
        \<and> version (update_audit_baseline now b cur) = 1
        \<and> created (update_audit_baseline now b cur) = now
        \<and> avg_auth_failures (update_audit_baseline now b cur)
            = f32_of_int (auth_failures cur)
        \<and> avg_sudo_count (update_audit_baseline now b cur) = f32_of_int (sudo_count cur)
        \<and> avg_sensitive_access (update_audit_baseline now b cur)
            = f32_of_int (int (sensitive_file_count cur))
        \<and> avg_tmp_executions (update_audit_baseline now b cur)
            = f32_of_int (tmp_executions cur)
        \<and> avg_shell_spawns (update_audit_baseline now b cur)
            = f32_of_int (shell_spawns cur))
   \<and> (sample_count b \<noteq> 0 \<longrightarrow>
        magic (update_audit_baseline now b cur) = magic b
        \<and> version (update_audit_baseline now b cur) = version b
        \<and> created (update_audit_baseline now b cur) = created b
        \<and> avg_auth_failures (update_audit_baseline now b cur)
            = f32_add (f32_mul (f32_of_int (auth_failures cur)) (round32 (1 / 5)))
                (f32_mul (avg_auth_failures b) (round32 (4 / 5)))
        \<and> avg_sudo_count (update_audit_baseline now b cur)
            = f32_add (f32_mul (f32_of_int (sudo_count cur)) (round32 (1 / 5)))
                (f32_mul (avg_sudo_count b) (round32 (4 / 5)))
        \<and> avg_sensitive_access (update_audit_baseline now b cur)
            = f32_add (f32_mul (f32_of_int (int (sensitive_file_count cur))) (round32 (1 / 5)))
                (f32_mul (avg_sensitive_access b) (round32 (4 / 5)))
        \<and> avg_tmp_executions (update_audit_baseline now b cur)
            = f32_add (f32_mul (f32_of_int (tmp_executions cur)) (round32 (1 / 5)))
                (f32_mul (avg_tmp_executions b) (round32 (4 / 5)))
        \<and> avg_shell_spawns (update_audit_baseline now b cur)
            = f32_add (f32_mul (f32_of_int (shell_spawns cur)) (round32 (1 / 5)))
                (f32_mul (avg_shell_spawns b) (round32 (4 / 5))))
   \<and> (\<forall>n. \<bar>n\<bar> < 2 ^ 24 \<longrightarrow> f32_of_int n = Finite (of_int n))
   \<and> (\<forall>n old v. \<bar>n\<bar> < 2 ^ 24
          \<and> f32_add (f32_mul (f32_of_int n) (round32 (1 / 5)))
                (f32_mul (Finite old) (round32 (4 / 5))) = Finite v
        \<longrightarrow> \<bar>v - (of_int n / 5 + 4 * old / 5)\<bar>
              \<le> (\<bar>of_int n\<bar> / 5 + 4 * \<bar>old\<bar> / 5) * pow2 (- 22) + pow2 (- 148))"
proof -
  let ?b = "update_audit_baseline now b cur"
  have count: "sample_count ?b = sample_count b + 1 \<and> updated ?b = now"
    by (simp add: update_audit_baseline_def Let_def)
  have seed: "sample_count b = 0 \<longrightarrow>
        magic ?b = ''SNTLAUDT'' \<and> version ?b = 1 \<and> created ?b = now
        \<and> avg_auth_failures ?b = f32_of_int (auth_failures cur)
        \<and> avg_sudo_count ?b = f32_of_int (sudo_count cur)
        \<and> avg_sensitive_access ?b = f32_of_int (int (sensitive_file_count cur))
        \<and> avg_tmp_executions ?b = f32_of_int (tmp_executions cur)
        \<and> avg_shell_spawns ?b = f32_of_int (shell_spawns cur)"
    by (simp add: update_audit_baseline_def Let_def AUDIT_BASELINE_MAGIC_def
        AUDIT_BASELINE_VERSION_def)
  have alpha: "EMA_ALPHA = round32 (1 / 5)"
    by (simp add: EMA_ALPHA_def)
  have ema: "sample_count b \<noteq> 0 \<longrightarrow>
        magic ?b = magic b \<and> version ?b = version b \<and> created ?b = created b
        \<and> avg_auth_failures ?b
            = f32_add (f32_mul (f32_of_int (auth_failures cur)) (round32 (1 / 5)))
                (f32_mul (avg_auth_failures b) (round32 (4 / 5)))
        \<and> avg_sudo_count ?b
            = f32_add (f32_mul (f32_of_int (sudo_count cur)) (round32 (1 / 5)))
                (f32_mul (avg_sudo_count b) (round32 (4 / 5)))
        \<and> avg_sensitive_access ?b
            = f32_add (f32_mul (f32_of_int (int (sensitive_file_count cur))) (round32 (1 / 5)))
                (f32_mul (avg_sensitive_access b) (round32 (4 / 5)))
        \<and> avg_tmp_executions ?b
            = f32_add (f32_mul (f32_of_int (tmp_executions cur)) (round32 (1 / 5)))
                (f32_mul (avg_tmp_executions b) (round32 (4 / 5)))
        \<and> avg_shell_spawns ?b
            = f32_add (f32_mul (f32_of_int (shell_spawns cur)) (round32 (1 / 5)))
                (f32_mul (avg_shell_spawns b) (round32 (4 / 5)))"
    by (simp add: update_audit_baseline_def Let_def one_minus_alpha) (simp add: alpha)
  have exact: "\<forall>n. \<bar>n\<bar> < 2 ^ 24 \<longrightarrow> f32_of_int n = Finite (of_int n)"
    by (simp add: f32_of_small_int)
  have err: "\<forall>n old v. \<bar>n\<bar> < 2 ^ 24
          \<and> f32_add (f32_mul (f32_of_int n) (round32 (1 / 5)))
                (f32_mul (Finite old) (round32 (4 / 5))) = Finite v
        \<longrightarrow> \<bar>v - (of_int n / 5 + 4 * old / 5)\<bar>
              \<le> (\<bar>of_int n\<bar> / 5 + 4 * \<bar>old\<bar> / 5) * pow2 (- 22) + pow2 (- 148)"
    using ema_step_error
    by (simp only: alpha [symmetric] one_minus_alpha [symmetric]) blast
  from count seed ema exact err show ?thesis
    by (intro conjI) (elim conjE, assumption)+
qed

theorem update_audit_baseline_ema_witness:
  "sample_count zero_baseline = 0
   \<and> magic (update_audit_baseline 1767386347 zero_baseline
        (calloc_summary\<lparr>auth_failures := 3, sudo_count := 1\<rparr>)) = ''SNTLAUDT''
   \<and> version (update_audit_baseline 1767386347 zero_baseline
        (calloc_summary\<lparr>auth_failures := 3, sudo_count := 1\<rparr>)) = 1
   \<and> sample_count (update_audit_baseline 1767386347 zero_baseline
        (calloc_summary\<lparr>auth_failures := 3, sudo_count := 1\<rparr>)) = 1
   \<and> avg_auth_failures (update_audit_baseline 1767386347 zero_baseline
        (calloc_summary\<lparr>auth_failures := 3, sudo_count := 1\<rparr>)) = Finite 3
   \<and> avg_sudo_count (update_audit_baseline 1767386347 zero_baseline
        (calloc_summary\<lparr>auth_failures := 3, sudo_count := 1\<rparr>)) = Finite 1
   \<and> sample_count (zero_baseline\<lparr>sample_count := 10, avg_auth_failures := Finite 2\<rparr>) \<noteq> 0
   \<and> sample_count (update_audit_baseline 1767386347
        (zero_baseline\<lparr>sample_count := 10, avg_auth_failures := Finite 2\<rparr>)
        (calloc_summary\<lparr>auth_failures := 20\<rparr>)) = 11
   \<and> avg_auth_failures (update_audit_baseline 1767386347
        (zero_baseline\<lparr>sample_count := 10, avg_auth_failures := Finite 2\<rparr>)
        (calloc_summary\<lparr>auth_failures := 20\<rparr>)) = Finite (11744051 / 2097152)
   \<and> \<bar>11744051 / 2097152 - (of_int 20 / 5 + 4 * 2 / 5)\<bar>
       \<le> (\<bar>of_int 20\<bar> / 5 + 4 * \<bar>2\<bar> / 5) * pow2 (- 22) + pow2 (- 148)"
proof -
  let ?s = "calloc_summary\<lparr>auth_failures := 3, sudo_count := 1\<rparr>"
  let ?b1 = "zero_baseline\<lparr>sample_count := 10, avg_auth_failures := Finite 2\<rparr>"
  let ?c1 = "calloc_summary\<lparr>auth_failures := 20\<rparr>"
  note first = update_audit_baseline_ema [of 1767386347 zero_baseline ?s]
  note second = update_audit_baseline_ema [of 1767386347 ?b1 ?c1]
  have z: "sample_count zero_baseline = 0"
    by (simp add: zero_baseline_def)
  have nz: "sample_count ?b1 \<noteq> 0"
    by simp
  from first have c1: "sample_count (update_audit_baseline 1767386347 zero_baseline ?s) = 1"
    by (simp add: z)
  from first z
  have seeded: "magic (update_audit_baseline 1767386347 zero_baseline ?s) = ''SNTLAUDT''
      \<and> version (update_audit_baseline 1767386347 zero_baseline ?s) = 1
      \<and> avg_auth_failures (update_audit_baseline 1767386347 zero_baseline ?s)
          = f32_of_int (auth_failures ?s)
      \<and> avg_sudo_count (update_audit_baseline 1767386347 zero_baseline ?s)
          = f32_of_int (sudo_count ?s)"
    by blast
  from first have small: "\<And>n. \<bar>n\<bar> < 2 ^ 24 \<Longrightarrow> f32_of_int n = Finite (of_int n)"
    by blast
  have "f32_of_int (auth_failures ?s) = Finite 3" "f32_of_int (sudo_count ?s) = Finite 1"
    using small [of 3] small [of 1] by (simp_all add: calloc_summary_def)
  with seeded
  have s1: "magic (update_audit_baseline 1767386347 zero_baseline ?s) = ''SNTLAUDT''"
    and s2: "version (update_audit_baseline 1767386347 zero_baseline ?s) = 1"
    and s3: "avg_auth_failures (update_audit_baseline 1767386347 zero_baseline ?s) = Finite 3"
    and s4: "avg_sudo_count (update_audit_baseline 1767386347 zero_baseline ?s) = Finite 1"
    by simp_all
  from second have c2: "sample_count (update_audit_baseline 1767386347 ?b1 ?c1) = 11"
    by simp
  from second nz
  have "avg_auth_failures (update_audit_baseline 1767386347 ?b1 ?c1)
      = f32_add (f32_mul (f32_of_int (auth_failures ?c1)) (round32 (1 / 5)))
          (f32_mul (avg_auth_failures ?b1) (round32 (4 / 5)))"
    by blast
  then have e: "avg_auth_failures (update_audit_baseline 1767386347 ?b1 ?c1)
      = f32_add (f32_mul (f32_of_int 20) (round32 (1 / 5)))
          (f32_mul (Finite 2) (round32 (4 / 5)))"
    by (simp add: calloc_summary_def)
  have v: "f32_add (f32_mul (f32_of_int 20) (round32 (1 / 5)))
          (f32_mul (Finite 2) (round32 (4 / 5))) = Finite (11744051 / 2097152)"
    by code_simp
  from second
  have "\<bar>(20::int)\<bar> < 2 ^ 24
      \<and> f32_add (f32_mul (f32_of_int 20) (round32 (1 / 5)))
            (f32_mul (Finite 2) (round32 (4 / 5))) = Finite (11744051 / 2097152)
      \<longrightarrow> \<bar>11744051 / 2097152 - (of_int 20 / 5 + 4 * 2 / 5)\<bar>
            \<le> (\<bar>of_int 20\<bar> / 5 + 4 * \<bar>2\<bar> / 5) * pow2 (- 22) + pow2 (- 148)"
    by blast
  with v have bound: "\<bar>11744051 / 2097152 - (of_int 20 / 5 + 4 * 2 / 5)\<bar>
            \<le> (\<bar>of_int 20\<bar> / 5 + 4 * \<bar>2\<bar> / 5) * pow2 (- 22) + pow2 (- 148)"
    by simp
  from e v have a2: "avg_auth_failures (update_audit_baseline 1767386347 ?b1 ?c1)
      = Finite (11744051 / 2097152)"
    by simp
  from z s1 s2 c1 s3 s4 nz c2 a2 bound show ?thesis
    by (intro conjI)
qed

section \<open>C8: brute-force detection\<close>

lemma find_or_add_user_auth_failures:
  "find_or_add_user h x s u = (r, s') \<Longrightarrow> auth_failures s' = auth_failures s"
  by (auto simp: find_or_add_user_def Let_def split: option.splits if_splits)

lemma auth_line_auth_failures:
  "auth_failures (auth_line h x s l) =
     auth_failures s + (if strstr l ''res=failed'' \<noteq> None then 1 else 0)"
  by (auto simp: auth_line_def Let_def split: option.splits prod.splits
      dest!: find_or_add_user_auth_failures)

lemma foldl_auth_line_auth_failures:
  "auth_failures (foldl (auth_line h x) s ls) =
     auth_failures s + int (length (filter (\<lambda>l. strstr l ''res=failed'' \<noteq> None) ls))"
  by (induction ls arbitrary: s) (simp_all add: auth_line_auth_failures)

text \<open>
  C8.  When the authentication parser has read its stream, whatever the lines and
  whatever the summary it started from, \<open>brute_force_detected\<close> holds exactly when
  \<open>auth_failures\<close> exceeds 5.  The same holds of every summary that a probe
  returns (also when the pipe could not be opened, and on the early return for an
  unreadable audit log, where both sides are false).  Started from the zeroed
  summary, \<open>auth_failures\<close> is the number of lines that contain \<open>res=failed\<close>.
\<close>

theorem brute_force_iff_auth_failures:
  "brute_force_detected (parse_auth_events h x s (Some ls))
     = (auth_failures (parse_auth_events h x s (Some ls)) > 5)
   \<and> (probe_audit h x w win = Some s'
        \<longrightarrow> brute_force_detected s' = (auth_failures s' > 5))
   \<and> auth_failures (parse_auth_events h x calloc_summary (Some ls))
     = int (length (filter (\<lambda>l. strstr l ''res=failed'' \<noteq> None) ls))"
proof -
  have a: "brute_force_detected (parse_auth_events h x s (Some ls))
     = (auth_failures (parse_auth_events h x s (Some ls)) > 5)" for s
    by (simp add: parse_auth_events_def Let_def)
  have b: "brute_force_detected s' = (auth_failures s' > 5)"
    if p: "probe_audit h x w win = Some s'"
  proof (cases "audit_log_readable w")
    case True
    let ?s0 = "calloc_summary\<lparr>enabled := True, period_seconds := win,
      capture_time := time_now w\<rparr>"
    have "brute_force_detected (parse_auth_events h x ?s0 (auth_pipe w))
        = (auth_failures (parse_auth_events h x ?s0 (auth_pipe w)) > 5)"
    proof (cases "auth_pipe w")
      case None
      then show ?thesis by (simp add: parse_auth_events_def calloc_summary_def)
    next
      case (Some ls')
      then show ?thesis by (simp add: parse_auth_events_def Let_def)
    qed
    with probe_audit_brute_force [OF p True] probe_audit_auth_fields [OF p True]
    show ?thesis by simp
  next
    case False
    with p have "s' = calloc_summary\<lparr>enabled := True, period_seconds := win,
        capture_time := time_now w, enabled := False\<rparr>"
      by (auto simp: probe_audit_def Let_def split: if_splits)
    then show ?thesis by (simp add: calloc_summary_def)
  qed
  have c: "auth_failures (parse_auth_events h x calloc_summary (Some ls))
     = int (length (filter (\<lambda>l. strstr l ''res=failed'' \<noteq> None) ls))"
    by (simp add: parse_auth_events_def Let_def foldl_auth_line_auth_failures calloc_summary_def)
  from a b c show ?thesis by blast
qed

theorem brute_force_iff_auth_failures_witness:
  "\<exists>s. probe_audit (example_header zero_baseline) example_externals
          (auth_host (replicate 7 (auth_failed_line ''alice'') @ [auth_success_line ''alice'']))
          3600 = Some s
       \<and> brute_force_detected s = (auth_failures s > 5)
       \<and> auth_failures s = 7 \<and> auth_successes s = 1 \<and> brute_force_detected s
       \<and> map (\<lambda>u. (hash u, count u)) (failure_users s) = [(''user_ecil'', 7)]"
proof -
  let ?w = "auth_host (replicate 7 (auth_failed_line ''alice'') @ [auth_success_line ''alice''])"
  have v: "map_option (\<lambda>s. (auth_failures s, auth_successes s, brute_force_detected s,
        map (\<lambda>u. (hash u, count u)) (failure_users s)))
      (probe_audit (example_header zero_baseline) example_externals ?w 3600)
      = Some (7, 1, True, [(''user_ecil'', 7)])"
    by code_simp
  then obtain s where s: "probe_audit (example_header zero_baseline) example_externals ?w 3600
      = Some s"
    and val: "auth_failures s = 7" "auth_successes s = 1" "brute_force_detected s"
      "map (\<lambda>u. (hash u, count u)) (failure_users s) = [(''user_ecil'', 7)]"
    by auto
  from brute_force_iff_auth_failures [where s' = s, THEN conjunct2, THEN conjunct1, THEN mp, OF s]
  have "brute_force_detected s = (auth_failures s > 5)" .
  with s val show ?thesis
    by (intro exI [of _ s]) (simp only: simp_thms)
qed

section \<open>C9: the per-user failure counts\<close>

lemma sum_counts_bump:
  "i < length us \<Longrightarrow>
     sum_list (map count (us[i := (us ! i)\<lparr>count := count (us ! i) + 1\<rparr>]))
       = sum_list (map count us) + 1"
proof (induction us arbitrary: i)
  case Nil
  then show ?case by simp
next
  case (Cons u us)
  then show ?case by (cases i) simp_all
qed

lemma hashes_bump:
  "map hash (us[i := (us ! i)\<lparr>count := c\<rparr>]) = map hash us"
proof (induction us arbitrary: i)
  case Nil
  then show ?case by simp
next
  case (Cons u us)
  then show ?case by (cases i) simp_all
qed

lemma user_tag_take: "take (HASH_USERNAME_LEN h - 1) (user_tag h x u) = user_tag h x u"
  by (simp add: user_tag_def hash_username_def Let_def)

lemma user_tag_length: "length (user_tag h x u) \<le> HASH_USERNAME_LEN h - Suc 0"
  by (simp add: user_tag_def hash_username_def Let_def)

lemma find_or_add_user_result:
  assumes "find_or_add_user h x s u = (r, s2)"
  shows "auth_failures s2 = auth_failures s"
    and "sum_list (map count (failure_users s2)) = sum_list (map count (failure_users s))"
    and "r = Some i \<Longrightarrow> i < length (failure_users s2)"
    and "map hash (failure_users s2) =
           (if user_tag h x u \<in> set (map hash (failure_users s))
               \<or> \<not> failure_user_count s < MAX_AUDIT_USERS h
            then map hash (failure_users s)
            else map hash (failure_users s) @ [user_tag h x u])"
    and "r = None \<longleftrightarrow> user_tag h x u \<notin> set (map hash (failure_users s))
           \<and> \<not> failure_user_count s < MAX_AUDIT_USERS h"
proof -
  let ?P = "\<lambda>v. hash v = user_tag h x u"
  show "auth_failures s2 = auth_failures s"
    using assms
    by (auto simp: find_or_add_user_def Let_def split: option.splits if_splits)
  show "sum_list (map count (failure_users s2)) = sum_list (map count (failure_users s))"
    using assms
    by (auto simp: find_or_add_user_def Let_def split: option.splits if_splits)
  show "i < length (failure_users s2)" if "r = Some i"
    using assms that
    by (auto simp: find_or_add_user_def Let_def user_tag_def [symmetric]
        split: option.splits if_splits dest: scan_index_Some)
  have none: "scan_index ?P (failure_users s) = None
      \<longleftrightarrow> user_tag h x u \<notin> set (map hash (failure_users s))"
    by (force simp: scan_index_None)
  show "map hash (failure_users s2) =
           (if user_tag h x u \<in> set (map hash (failure_users s))
               \<or> \<not> failure_user_count s < MAX_AUDIT_USERS h
            then map hash (failure_users s)
            else map hash (failure_users s) @ [user_tag h x u])"
  proof (cases "scan_index ?P (failure_users s)")
    case None
    with assms none show ?thesis
      by (auto simp: find_or_add_user_def Let_def user_tag_def [symmetric] user_tag_length
          split: if_splits)
  next
    case (Some j)
    with none have "user_tag h x u \<in> set (map hash (failure_users s))" by auto
    with assms Some show ?thesis
      by (auto simp: find_or_add_user_def Let_def user_tag_def [symmetric])
  qed
  show "r = None \<longleftrightarrow> user_tag h x u \<notin> set (map hash (failure_users s))
           \<and> \<not> failure_user_count s < MAX_AUDIT_USERS h"
  proof (cases "scan_index ?P (failure_users s)")
    case None
    with assms none show ?thesis
      by (auto simp: find_or_add_user_def Let_def user_tag_def [symmetric] split: if_splits)
  next
    case (Some j)
    with none have "user_tag h x u \<in> set (map hash (failure_users s))" by auto
    moreover from assms Some have "r = Some j"
      by (simp add: find_or_add_user_def Let_def user_tag_def [symmetric])
    ultimately show ?thesis by simp
  qed
qed

lemma auth_line_no_failure:
  "strstr l ''res=failed'' = None \<Longrightarrow> failure_users (auth_line h x s l) = failure_users s"
  by (simp add: auth_line_def)

lemma auth_line_failed_no_user:
  "strstr l ''res=failed'' \<noteq> None \<Longrightarrow> acct_username l = None
     \<Longrightarrow> failure_users (auth_line h x s l) = failure_users s"
  by (auto simp: auth_line_def acct_username_def Let_def split: option.splits if_splits)

lemma auth_line_failed_user:
  assumes "strstr l ''res=failed'' \<noteq> None" and "acct_username l = Some u"
  shows "map hash (failure_users (auth_line h x s l)) =
           (if user_tag h x u \<in> set (map hash (failure_users s))
               \<or> \<not> failure_user_count s < MAX_AUDIT_USERS h
            then map hash (failure_users s)
            else map hash (failure_users s) @ [user_tag h x u])"
    and "sum_list (map count (failure_users (auth_line h x s l))) =
           sum_list (map count (failure_users s))
           + (if user_tag h x u \<in> set (map hash (failure_users s))
                 \<or> failure_user_count s < MAX_AUDIT_USERS h then 1 else 0)"
proof -
  let ?s1 = "s\<lparr>auth_failures := auth_failures s + 1\<rparr>"
  obtain r s2 where f: "find_or_add_user h x ?s1 u = (r, s2)"
    by fastforce
  note res = find_or_add_user_result [OF f]
  from assms(2) obtain a where a: "strstr l (''acct='' @ [dquote]) = Some a"
    and u: "u = copy_quoted 64 (drop 6 a)" and nonempty: "0 < length u"
    by (auto simp: acct_username_def Let_def split: option.splits if_splits)
  have line: "auth_line h x s l =
      (case r of
         Some i \<Rightarrow> s2\<lparr>failure_users := (failure_users s2)
             [i := (failure_users s2 ! i)\<lparr>count := count (failure_users s2 ! i) + 1\<rparr>]\<rparr>
       | None \<Rightarrow> s2)"
    using assms(1) a nonempty f unfolding u
    by (simp add: auth_line_def Let_def split: option.splits)
  show "map hash (failure_users (auth_line h x s l)) =
           (if user_tag h x u \<in> set (map hash (failure_users s))
               \<or> \<not> failure_user_count s < MAX_AUDIT_USERS h
            then map hash (failure_users s)
            else map hash (failure_users s) @ [user_tag h x u])"
    using res(4) by (cases r) (simp_all add: line hashes_bump)
  show "sum_list (map count (failure_users (auth_line h x s l))) =
           sum_list (map count (failure_users s))
           + (if user_tag h x u \<in> set (map hash (failure_users s))
                 \<or> failure_user_count s < MAX_AUDIT_USERS h then 1 else 0)"
  proof (cases r)
    case None
    with res(2) res(5) show ?thesis by (simp add: line)
  next
    case (Some i)
    with res(3) have "i < length (failure_users s2)" by simp
    with Some res(2) res(5) show ?thesis
      by (simp add: line sum_counts_bump)
  qed
qed

lemma failing_users_Cons:
  "failing_users (l # ls) =
     (if strstr l ''res=failed'' \<noteq> None
      then (case acct_username l of None \<Rightarrow> failing_users ls
            | Some u \<Rightarrow> u # failing_users ls)
      else failing_users ls)"
  by (simp add: failing_users_def List.map_filter_simps split: option.splits)

lemma foldl_auth_line_sum_le:
  assumes "sum_list (map count (failure_users s)) \<le> auth_failures s"
  shows "sum_list (map count (failure_users (foldl (auth_line h x) s ls)))
           \<le> auth_failures (foldl (auth_line h x) s ls)"
  using assms
proof (induction ls arbitrary: s)
  case Nil
  then show ?case by simp
next
  case (Cons l ls)
  have "sum_list (map count (failure_users (auth_line h x s l)))
          \<le> auth_failures (auth_line h x s l)"
  proof (cases "strstr l ''res=failed'' = None")
    case True
    with Cons.prems show ?thesis
      by (simp add: auth_line_no_failure auth_line_auth_failures)
  next
    case False
    show ?thesis
    proof (cases "acct_username l")
      case None
      with False Cons.prems show ?thesis
        by (simp add: auth_line_failed_no_user auth_line_auth_failures)
    next
      case (Some u)
      with False Cons.prems show ?thesis
        by (simp add: auth_line_failed_user(2) auth_line_auth_failures)
    qed
  qed
  then show ?case
    by (simp add: Cons.IH)
qed

lemma foldl_auth_line_sum_eq:
  assumes "\<forall>l \<in> set ls. strstr l ''res=failed'' \<noteq> None \<longrightarrow> acct_username l \<noteq> None"
    and "user_tag h x ` set (failing_users ls) \<subseteq> T" and "finite T"
    and "card T \<le> MAX_AUDIT_USERS h"
    and "distinct (map hash (failure_users s))" and "set (map hash (failure_users s)) \<subseteq> T"
    and "sum_list (map count (failure_users s)) = auth_failures s"
  shows "sum_list (map count (failure_users (foldl (auth_line h x) s ls)))
           = auth_failures (foldl (auth_line h x) s ls)"
  using assms
proof (induction ls arbitrary: s)
  case Nil
  then show ?case by simp
next
  case (Cons l ls)
  let ?s' = "auth_line h x s l"
  have step: "distinct (map hash (failure_users ?s'))
      \<and> set (map hash (failure_users ?s')) \<subseteq> T
      \<and> sum_list (map count (failure_users ?s')) = auth_failures ?s'"
  proof (cases "strstr l ''res=failed'' = None")
    case True
    with Cons.prems show ?thesis
      by (simp add: auth_line_no_failure auth_line_auth_failures)
  next
    case False
    with Cons.prems(1) obtain u where u: "acct_username l = Some u" by auto
    with False Cons.prems(2) have tag: "user_tag h x u \<in> T"
      by (simp add: failing_users_Cons)
    have cap: "failure_user_count s < MAX_AUDIT_USERS h"
      if new: "user_tag h x u \<notin> set (map hash (failure_users s))"
    proof -
      from Cons.prems(6) new tag have "set (map hash (failure_users s)) \<subset> T"
        by blast
      with Cons.prems(3) have "card (set (map hash (failure_users s))) < card T"
        by (rule psubset_card_mono)
      moreover have "card (set (map hash (failure_users s))) = failure_user_count s"
        using distinct_card [OF Cons.prems(5)] by simp
      ultimately show ?thesis using Cons.prems(4) by linarith
    qed
    from False u Cons.prems(5,6,7) tag cap show ?thesis
      by (auto simp: auth_line_failed_user [OF _ u] auth_line_auth_failures)
  qed
  have rest: "\<forall>l \<in> set ls. strstr l ''res=failed'' \<noteq> None \<longrightarrow> acct_username l \<noteq> None"
    using Cons.prems(1) by simp
  have tags: "user_tag h x ` set (failing_users ls) \<subseteq> T"
    using Cons.prems(2) by (auto simp: failing_users_Cons split: if_splits option.splits)
  from Cons.IH [OF rest tags Cons.prems(3,4)] step show ?case
    by simp
qed

lemma parse_auth_events_sum_le:
  assumes "sum_list (map count (failure_users s)) \<le> auth_failures s"
  shows "sum_list (map count (failure_users (parse_auth_events h x s pipe)))
           \<le> auth_failures (parse_auth_events h x s pipe)"
  using assms
  by (cases pipe) (simp_all add: parse_auth_events_def Let_def foldl_auth_line_sum_le)

lemma parse_auth_events_sum_eq:
  assumes "\<forall>l \<in> set ls. strstr l ''res=failed'' \<noteq> None \<longrightarrow> acct_username l \<noteq> None"
    and "card (set (failing_users ls)) \<le> MAX_AUDIT_USERS h"
    and "failure_users s = []" and "auth_failures s = 0"
  shows "sum_list (map count (failure_users (parse_auth_events h x s (Some ls))))
           = auth_failures (parse_auth_events h x s (Some ls))"
proof -
  let ?T = "user_tag h x ` set (failing_users ls)"
  have "card ?T \<le> card (set (failing_users ls))"
    by (rule card_image_le) simp
  with assms(2) have c: "card ?T \<le> MAX_AUDIT_USERS h" by linarith
  have "sum_list (map count (failure_users (foldl (auth_line h x) s ls)))
           = auth_failures (foldl (auth_line h x) s ls)"
    by (rule foldl_auth_line_sum_eq [OF assms(1) subset_refl _ c])
      (simp_all add: assms(3,4))
  then show ?thesis
    by (simp add: parse_auth_events_def Let_def)
qed

text \<open>
  C9 (amended).  After every probe the counts of \<open>failure_users\<close> sum to at most
  \<open>auth_failures\<close>.  The two are equal when every line with \<open>res=failed\<close> carries a
  non-empty \<open>acct="..."\<close> field and the number of distinct failing user names does
  not exceed \<open>MAX_AUDIT_USERS\<close>: a failed line without such a field is counted in
  \<open>auth_failures\<close> and attributed to no user.
\<close>

theorem failure_user_counts:
  assumes "probe_audit h x w win = Some s"
  shows "sum_list (map count (failure_users s)) \<le> auth_failures s
    \<and> (\<forall>ls. audit_log_readable w \<and> auth_pipe w = Some ls
          \<and> (\<forall>l \<in> set ls. strstr l ''res=failed'' \<noteq> None \<longrightarrow> acct_username l \<noteq> None)
          \<and> card (set (failing_users ls)) \<le> MAX_AUDIT_USERS h
        \<longrightarrow> sum_list (map count (failure_users s)) = auth_failures s)"
proof (cases "audit_log_readable w")
  case True
  let ?s0 = "calloc_summary\<lparr>enabled := True, period_seconds := win,
               capture_time := time_now w\<rparr>"
  note fields = probe_audit_auth_fields [OF assms True]
  have z: "failure_users ?s0 = []" "auth_failures ?s0 = 0"
    by (simp_all add: calloc_summary_def)
  then have "sum_list (map count (failure_users ?s0)) \<le> auth_failures ?s0"
    by simp
  from parse_auth_events_sum_le [OF this, of h x "auth_pipe w"] fields
  have le: "sum_list (map count (failure_users s)) \<le> auth_failures s"
    by simp
  have eq: "sum_list (map count (failure_users s)) = auth_failures s"
    if "auth_pipe w = Some ls"
      and "\<forall>l \<in> set ls. strstr l ''res=failed'' \<noteq> None \<longrightarrow> acct_username l \<noteq> None"
      and "card (set (failing_users ls)) \<le> MAX_AUDIT_USERS h" for ls
    using parse_auth_events_sum_eq [OF that(2,3) z, of x] fields that(1)
    by simp
  from le eq show ?thesis by blast
next
  case False
  with assms have "s = calloc_summary\<lparr>enabled := True, period_seconds := win,
      capture_time := time_now w, enabled := False\<rparr>"
    by (auto simp: probe_audit_def Let_def split: if_splits)
  with False show ?thesis
    by (simp add: calloc_summary_def)
qed

theorem failure_user_counts_witness:
  "\<exists>s. probe_audit (example_header zero_baseline) example_externals
          (auth_host [auth_failed_line ''alice'', auth_failed_line ''bob'',
             auth_failed_line ''alice'']) 3600 = Some s
       \<and> card (set (failing_users [auth_failed_line ''alice'', auth_failed_line ''bob'',
             auth_failed_line ''alice''])) \<le> MAX_AUDIT_USERS (example_header zero_baseline)
       \<and> sum_list (map count (failure_users s)) \<le> auth_failures s
       \<and> sum_list (map count (failure_users s)) = auth_failures s
       \<and> auth_failures s = 3 \<and> map count (failure_users s) = [2, 1]"
proof -
  let ?ls = "[auth_failed_line ''alice'', auth_failed_line ''bob'', auth_failed_line ''alice'']"
  let ?h = "example_header zero_baseline"
  have v: "map_option (\<lambda>s. (auth_failures s, map count (failure_users s)))
      (probe_audit ?h example_externals (auth_host ?ls) 3600) = Some (3, [2, 1])"
    by code_simp
  then obtain s where s: "probe_audit ?h example_externals (auth_host ?ls) 3600 = Some s"
    and val: "auth_failures s = 3" "map count (failure_users s) = [2, 1]"
    by auto
  have pre: "audit_log_readable (auth_host ?ls) \<and> auth_pipe (auth_host ?ls) = Some ?ls
      \<and> (\<forall>l \<in> set ?ls. strstr l ''res=failed'' \<noteq> None \<longrightarrow> acct_username l \<noteq> None)
      \<and> card (set (failing_users ?ls)) \<le> MAX_AUDIT_USERS ?h"
    by code_simp
  from failure_user_counts [OF s] pre
  have r: "sum_list (map count (failure_users s)) \<le> auth_failures s
      \<and> sum_list (map count (failure_users s)) = auth_failures s"
    by blast
  from pre have c: "card (set (failing_users ?ls)) \<le> MAX_AUDIT_USERS ?h"
    by (elim conjE)
  from s c r val show ?thesis
    by (intro exI [of _ s]) (simp only: simp_thms)
qed

text \<open>
  C9, the claim as stated fails: one failed login whose account is written
  unquoted is counted in \<open>auth_failures\<close> and in no entry of \<open>failure_users\<close>,
  though one failing user is far below the capacity.
\<close>

theorem failure_user_counts_unquoted_acct:
  "(case probe_audit (example_header zero_baseline) example_externals
            (auth_host [auth_failed_hex_line]) 3600 of
      None \<Rightarrow> False
    | Some s \<Rightarrow> length [auth_failed_hex_line] \<le> MAX_AUDIT_USERS (example_header zero_baseline)
        \<and> auth_failures s = 1 \<and> failure_users s = []
        \<and> sum_list (map count (failure_users s)) \<noteq> auth_failures s)"
  by code_simp

section \<open>C10: suspicious entries and the count of suspicious executions\<close>

lemma new_file_access_count:
  "snd (new_file_access h x ctx p n) =
     (if (\<exists>c. ctx = Some c \<and> comm c \<noteq> [])
         \<and> is_suspicious_chain x (chain (fst (new_file_access h x ctx p n)))
      then n + 1 else n)"
  by (auto simp: new_file_access_def Let_def split: option.splits)

lemma new_file_access_shadow:
  "strstr p ''shadow'' \<noteq> None \<or> strstr p ''sudoers'' \<noteq> None
     \<Longrightarrow> suspicious (fst (new_file_access h x ctx p n))"
  by (auto simp: new_file_access_def Let_def split: option.splits prod.splits)

lemma get_event_ctx_Some:
  assumes "get_event_ctx cache eid = (Some i, cache1)"
  shows "i < length cache1 \<and> used (cache1 ! i) \<and> event_id (cache1 ! i) = eid"
proof (cases "scan_index (\<lambda>c. used c \<and> event_id c = eid) cache")
  case None
  with assms show ?thesis
    by (auto simp: get_event_ctx_def split: if_splits)
next
  case (Some j)
  from scan_index_Some [OF this] Some assms show ?thesis
    by (auto simp: get_event_ctx_def)
qed

lemma copy_quoted_length: "length (copy_quoted n q) \<le> n - 1"
  by (simp add: copy_quoted_def)

lemma new_file_access_path:
  "length p \<le> AUDIT_PATH_LEN h - 1 \<Longrightarrow> path (fst (new_file_access h x ctx p n)) = p"
  by (auto simp: new_file_access_def Let_def strncpy_field_def split: option.splits prod.splits)

lemma file_line_effect:
  fixes h x s cache line
  defines "r \<equiv> (if extract_event_id line \<ge> 0 then get_event_ctx cache (extract_event_id line)
                  else (None, cache))"
  defines "st \<equiv> file_line h x (s, cache) line"
  shows "snd st = snd r"
    and "fst st = s
       \<or> (\<exists>j. j < sensitive_file_count s \<and>
             fst st = s\<lparr>sensitive_files := (sensitive_files s)
               [j := (sensitive_files s ! j)\<lparr>fa_count := fa_count (sensitive_files s ! j) + 1\<rparr>]\<rparr>)
       \<or> (\<exists>p. length p \<le> AUDIT_PATH_LEN h - 1 \<and>
             p \<notin> set (map path (sensitive_files s)) \<and>
             fst st = s\<lparr>sensitive_files := sensitive_files s @
                  [fst (new_file_access h x (map_option ((!) (snd r)) (fst r)) p
                          (suspicious_exec_count s))],
                suspicious_exec_count :=
                  snd (new_file_access h x (map_option ((!) (snd r)) (fst r)) p
                          (suspicious_exec_count s))\<rparr>)"
proof -
  show "snd st = snd r"
    unfolding st_def r_def
    by (simp add: file_line_def Let_def case_prod_beta split: option.splits)
  show "fst st = s
       \<or> (\<exists>j. j < sensitive_file_count s \<and>
             fst st = s\<lparr>sensitive_files := (sensitive_files s)
               [j := (sensitive_files s ! j)\<lparr>fa_count := fa_count (sensitive_files s ! j) + 1\<rparr>]\<rparr>)
       \<or> (\<exists>p. length p \<le> AUDIT_PATH_LEN h - 1 \<and>
             p \<notin> set (map path (sensitive_files s)) \<and>
             fst st = s\<lparr>sensitive_files := sensitive_files s @
                  [fst (new_file_access h x (map_option ((!) (snd r)) (fst r)) p
                          (suspicious_exec_count s))],
                suspicious_exec_count :=
                  snd (new_file_access h x (map_option ((!) (snd r)) (fst r)) p
                          (suspicious_exec_count s))\<rparr>)"
  proof (cases "strstr line (''name='' @ [dquote])")
    case None
    then have "fst st = s"
      unfolding st_def by (simp add: file_line_def Let_def case_prod_beta)
    then show ?thesis by simp
  next
    case (Some name)
    define p where "p = copy_quoted (AUDIT_PATH_LEN h) (drop 6 name)"
    show ?thesis
    proof (cases "length p > 5 \<and> last p \<noteq> CHR ''/''
        \<and> sensitive_file_count s < MAX_AUDIT_FILES h")
      case False
      with Some have "fst st = s"
        unfolding st_def p_def by (auto simp: file_line_def Let_def case_prod_beta)
      then show ?thesis by simp
    next
      case True
      show ?thesis
      proof (cases "scan_index (\<lambda>f. path f = p) (sensitive_files s)")
        case (Some j)
        from scan_index_Some [OF this] have "j < sensitive_file_count s" by simp
        moreover from \<open>strstr line (''name='' @ [dquote]) = Some name\<close> True Some
        have "fst st = s\<lparr>sensitive_files := (sensitive_files s)
               [j := (sensitive_files s ! j)\<lparr>fa_count := fa_count (sensitive_files s ! j) + 1\<rparr>]\<rparr>"
          unfolding st_def p_def by (simp add: file_line_def Let_def case_prod_beta)
        ultimately show ?thesis by blast
      next
        case None
        have "length p \<le> AUDIT_PATH_LEN h - 1"
          unfolding p_def by (rule copy_quoted_length)
        moreover from None have "p \<notin> set (map path (sensitive_files s))"
          by (auto simp: scan_index_None)
        moreover from \<open>strstr line (''name='' @ [dquote]) = Some name\<close> True None
        have "fst st = s\<lparr>sensitive_files := sensitive_files s @
                  [fst (new_file_access h x (map_option ((!) (snd r)) (fst r)) p
                          (suspicious_exec_count s))],
                suspicious_exec_count :=
                  snd (new_file_access h x (map_option ((!) (snd r)) (fst r)) p
                          (suspicious_exec_count s))\<rparr>"
          unfolding st_def p_def r_def by (simp add: file_line_def Let_def case_prod_beta)
        ultimately show ?thesis by blast
      qed
    qed
  qed
qed

text \<open>
  C10.  For a new entry of \<open>sensitive_files\<close>, \<open>suspicious_exec_count\<close> is
  incremented exactly when the line's event has a context slot with a non-empty
  \<open>comm\<close> and \<open>is_suspicious_chain\<close> accepts the chain built from it; whether the path
  contains ``shadow'' or ``sudoers'' plays no part in it.  Such a path makes the new
  entry suspicious in every case, so with no slot, or a slot with an empty \<open>comm\<close>,
  the entry is suspicious and the counter unchanged.  One line of the file query
  changes the counter in no other way.
\<close>

theorem suspicious_exec_count_frame:
  "snd (new_file_access h x ctx p n) =
     (if (\<exists>c. ctx = Some c \<and> comm c \<noteq> [])
         \<and> is_suspicious_chain x (chain (fst (new_file_access h x ctx p n)))
      then n + 1 else n)
   \<and> (strstr p ''shadow'' \<noteq> None \<or> strstr p ''sudoers'' \<noteq> None
        \<longrightarrow> suspicious (fst (new_file_access h x ctx p n)))
   \<and> ((ctx = None \<or> (\<exists>c. ctx = Some c \<and> comm c = []))
        \<and> (strstr p ''shadow'' \<noteq> None \<or> strstr p ''sudoers'' \<noteq> None)
        \<longrightarrow> suspicious (fst (new_file_access h x ctx p n))
          \<and> snd (new_file_access h x ctx p n) = n)
   \<and> (suspicious_exec_count (fst (file_line h x (s, cache) line)) = suspicious_exec_count s
      \<or> suspicious_exec_count (fst (file_line h x (s, cache) line)) = suspicious_exec_count s + 1
        \<and> (\<exists>c \<in> set (snd (file_line h x (s, cache) line)).
              used c \<and> event_id c = extract_event_id line \<and> comm c \<noteq> [])
        \<and> (\<exists>fa. sensitive_files (fst (file_line h x (s, cache) line))
                    = sensitive_files s @ [fa]
                  \<and> is_suspicious_chain x (chain fa)))"
proof -
  let ?r = "if extract_event_id line \<ge> 0 then get_event_ctx cache (extract_event_id line)
            else (None, cache)"
  let ?st = "file_line h x (s, cache) line"
  have a: "snd (new_file_access h x ctx p n) =
     (if (\<exists>c. ctx = Some c \<and> comm c \<noteq> [])
         \<and> is_suspicious_chain x (chain (fst (new_file_access h x ctx p n)))
      then n + 1 else n)" for ctx p n
    by (rule new_file_access_count)
  have b: "strstr p ''shadow'' \<noteq> None \<or> strstr p ''sudoers'' \<noteq> None
        \<longrightarrow> suspicious (fst (new_file_access h x ctx p n))"
    using new_file_access_shadow by blast
  have c: "(ctx = None \<or> (\<exists>c. ctx = Some c \<and> comm c = []))
        \<and> (strstr p ''shadow'' \<noteq> None \<or> strstr p ''sudoers'' \<noteq> None)
        \<longrightarrow> suspicious (fst (new_file_access h x ctx p n))
          \<and> snd (new_file_access h x ctx p n) = n"
    using a [of ctx p n] b by auto
  note eff = file_line_effect [of h x s cache line]
  from eff(2) consider
      (same) "fst ?st = s"
    | (bump) j where "fst ?st = s\<lparr>sensitive_files := (sensitive_files s)
               [j := (sensitive_files s ! j)\<lparr>fa_count := fa_count (sensitive_files s ! j) + 1\<rparr>]\<rparr>"
    | (new) q where "fst ?st = s\<lparr>sensitive_files := sensitive_files s @
                  [fst (new_file_access h x (map_option ((!) (snd ?r)) (fst ?r)) q
                          (suspicious_exec_count s))],
                suspicious_exec_count :=
                  snd (new_file_access h x (map_option ((!) (snd ?r)) (fst ?r)) q
                          (suspicious_exec_count s))\<rparr>"
    by blast
  then have d: "suspicious_exec_count (fst ?st) = suspicious_exec_count s
      \<or> suspicious_exec_count (fst ?st) = suspicious_exec_count s + 1
        \<and> (\<exists>c \<in> set (snd ?st). used c \<and> event_id c = extract_event_id line \<and> comm c \<noteq> [])
        \<and> (\<exists>fa. sensitive_files (fst ?st) = sensitive_files s @ [fa]
                  \<and> is_suspicious_chain x (chain fa))"
  proof cases
    case same
    then show ?thesis by simp
  next
    case bump
    then show ?thesis by simp
  next
    case new
    let ?ctx = "map_option ((!) (snd ?r)) (fst ?r)"
    let ?nfa = "new_file_access h x ?ctx q (suspicious_exec_count s)"
    show ?thesis
    proof (cases "snd ?nfa = suspicious_exec_count s")
      case True
      with new show ?thesis by simp
    next
      case False
      with a [of ?ctx q "suspicious_exec_count s"]
      obtain c where ctx: "?ctx = Some c" and comm: "comm c \<noteq> []"
        and susp: "is_suspicious_chain x (chain (fst ?nfa))"
        and inc: "snd ?nfa = suspicious_exec_count s + 1"
        by (auto split: if_splits)
      from ctx obtain i where i: "fst ?r = Some i" and c: "c = snd ?r ! i"
        by auto
      then have "get_event_ctx cache (extract_event_id line) = (Some i, snd ?r)"
        by (auto split: if_splits intro: prod_eqI)
      from get_event_ctx_Some [OF this] c
      have "c \<in> set (snd ?r)" "used c" "event_id c = extract_event_id line"
        by auto
      with comm eff(1) have "\<exists>c \<in> set (snd ?st).
          used c \<and> event_id c = extract_event_id line \<and> comm c \<noteq> []"
        by auto
      with new inc susp show ?thesis by simp
    qed
  qed
  from a [of ctx p n] b c d show ?thesis by blast
qed

theorem suspicious_exec_count_frame_witness:
  "strstr ''/etc/shadow'' ''shadow'' \<noteq> None
   \<and> suspicious (fst (new_file_access (example_header zero_baseline) example_externals None
        ''/etc/shadow'' 0))
   \<and> snd (new_file_access (example_header zero_baseline) example_externals None
        ''/etc/shadow'' 0) = 0
   \<and> map (\<lambda>f. (path f, suspicious f))
        (sensitive_files (fst (file_line (example_header zero_baseline) example_externals
           (calloc_summary, []) (file_path_line ''632'' ''/etc/shadow''))))
      = [(''/etc/shadow'', True)]
   \<and> suspicious_exec_count (fst (file_line (example_header zero_baseline) example_externals
           (calloc_summary, []) (file_path_line ''632'' ''/etc/shadow''))) = 0"
proof -
  have sh: "strstr ''/etc/shadow'' ''shadow'' \<noteq> None"
    by code_simp
  then have pre: "((None :: audit_event_ctx option) = None
           \<or> (\<exists>c. (None :: audit_event_ctx option) = Some c \<and> comm c = []))
        \<and> (strstr ''/etc/shadow'' ''shadow'' \<noteq> None \<or> strstr ''/etc/shadow'' ''sudoers'' \<noteq> None)"
    by simp
  from suspicious_exec_count_frame [where ctx = None and p = "''/etc/shadow''"
      and h = "example_header zero_baseline" and x = example_externals and n = 0,
      THEN conjunct2, THEN conjunct2, THEN conjunct1, THEN mp, OF pre]
  have nfa: "suspicious (fst (new_file_access (example_header zero_baseline) example_externals
        None ''/etc/shadow'' 0))
      \<and> snd (new_file_access (example_header zero_baseline) example_externals None
        ''/etc/shadow'' 0) = 0" .
  have line: "map (\<lambda>f. (path f, suspicious f))
        (sensitive_files (fst (file_line (example_header zero_baseline) example_externals
           (calloc_summary, []) (file_path_line ''632'' ''/etc/shadow''))))
      = [(''/etc/shadow'', True)]
   \<and> suspicious_exec_count (fst (file_line (example_header zero_baseline) example_externals
           (calloc_summary, []) (file_path_line ''632'' ''/etc/shadow''))) = 0"
    by code_simp
  from sh nfa line show ?thesis by (intro conjI) (elim conjE, assumption)+
qed

section \<open>Scenarios of the specification, and the table of sensitive files\<close>

text \<open>
  Scenario S2 of the specification: 20 failed logins against a loaded baseline
  of ten samples that averages 2 failures.  The deviation is 900 percent, one
  anomaly \<open>auth_failure_spike\<close> of severity CRITICAL is emitted, and the risk score
  is \<open>(20 + 10) * 5 = 150\<close>, critical.
\<close>

lemma scenario_deviation_multiplier:
  "map_option (\<lambda>s. (auth_failures s, brute_force_detected s, auth_baseline_avg s,
        auth_deviation_pct s,
        map (\<lambda>a. (anomaly_type a, description a, severity a, deviation_pct a)) (anomalies s),
        risk_score s, risk_level s))
     (probe_audit (example_header ten_sample_baseline) example_externals
        ((auth_host (replicate 20 (auth_failed_line ''alice'')))
           \<lparr>baseline_system_file := Some baseline_file\<rparr>) 3600)
   = Some (20, True, Finite 2, Finite 900,
       [(''auth_failure_spike'', ''20 auth failures (900% above baseline)'', ''CRITICAL'',
         Finite 900)],
       150, ''critical'')"
  by code_simp

text \<open>
  Scenario S3 of the specification with a usable baseline: one execution from
  /dev/shm against a loaded baseline of ten samples.  The summary has one anomaly,
  of type \<open>devshm_execution\<close>, severity CRITICAL and deviation 100, and the risk
  score is 6, medium.
\<close>

lemma scenario_devshm_with_baseline:
  "map_option (\<lambda>s. (devshm_executions s,
        map (\<lambda>a. (anomaly_type a, description a, severity a, current_value a,
               baseline_avg a, deviation_pct a)) (anomalies s),
        risk_score s, risk_level s))
     (probe_audit (example_header ten_sample_baseline) example_externals
        (exec_host devshm_line (Some baseline_file) None) 3600)
   = Some (1,
       [(''devshm_execution'', ''1 executions from /dev/shm'', ''CRITICAL'', Finite 1,
         Finite 0, Finite 100)],
       6, ''medium'')"
  by code_simp

text \<open>
  Scenario S4 of the specification: a SYSCALL record of serial 42 with
  \<open>comm="vim"\<close> and a PATH record of the same serial for /etc/shadow.  The entry of
  \<open>sensitive_files\<close> carries the path, the process \<open>vim\<close>, a chain that starts with
  \<open>vim\<close>, and is suspicious (the helper that walks /proc is the identity here, and no
  chain is taken to be suspicious, so \<open>suspicious_exec_count\<close> stays 0).
\<close>

lemma scenario_file_correlation:
  "map_option (\<lambda>s. (map (\<lambda>f. (path f, access_type f, fa_count f, process f,
                         names (chain f), depth (chain f), suspicious f))
                    (sensitive_files s),
                  suspicious_exec_count s))
     (probe_audit (example_header zero_baseline) example_externals
        (quiet_host\<lparr>syscall_pipe := Some [syscall_record_line ''42'' ''vim''],
           file_pipe := Some [file_path_line ''42'' ''/etc/shadow'']\<rparr>) 3600)
   = Some ([(''/etc/shadow'', ''write'', 1, ''vim'', [''vim''], 1, True)], 0)"
  by code_simp

lemma paths_bump:
  "map path (fs[j := (fs ! j)\<lparr>fa_count := c\<rparr>]) = map path fs"
proof (induction fs arbitrary: j)
  case Nil
  then show ?case by simp
next
  case (Cons f fs)
  then show ?case by (cases j) simp_all
qed

lemma file_line_distinct:
  assumes "distinct (map path (sensitive_files (fst st)))"
  shows "distinct (map path (sensitive_files (fst (file_line h x st l))))"
proof -
  obtain s cache where st: "st = (s, cache)" by (cases st)
  from file_line_effect(2) [of h x s cache l] assms show ?thesis
    unfolding st by (auto simp: paths_bump new_file_access_path)
qed

text \<open>
  The file parser keeps the paths of \<open>sensitive_files\<close> distinct: started from
  a table without a repeated path (the empty one, in a probe), it ends with one.
\<close>

lemma sensitive_files_distinct:
  assumes "distinct (map path (sensitive_files s))"
  shows "distinct (map path (sensitive_files (fst (parse_file_events h x (s, cache) pipe))))"
proof (cases pipe)
  case None
  with assms show ?thesis by (simp add: parse_file_events_def)
next
  case (Some ls)
  have "distinct (map path (sensitive_files (fst (foldl (file_line h x) st ls))))"
    if "distinct (map path (sensitive_files (fst st)))" for st
    using that
  proof (induction ls arbitrary: st)
    case Nil
    then show ?case by simp
  next
    case (Cons l ls)
    from Cons.prems have "distinct (map path (sensitive_files (fst (file_line h x st l))))"
      by (rule file_line_distinct)
    then show ?case by (simp add: Cons.IH)
  qed
  from this [of "(s, cache)"] assms Some show ?thesis
    by (simp add: parse_file_events_def)
qed

lemma sensitive_files_distinct_example:
  "distinct (map path (sensitive_files calloc_summary))
   \<and> distinct (map path (sensitive_files (fst (parse_file_events (example_header zero_baseline)
        example_externals (calloc_summary, [])
        (Some [file_path_line ''631'' ''/etc/passwd'', file_path_line ''632'' ''/etc/shadow'',
               file_path_line ''633'' ''/etc/passwd''])))))
   \<and> map path (sensitive_files (fst (parse_file_events (example_header zero_baseline)
        example_externals (calloc_summary, [])
        (Some [file_path_line ''631'' ''/etc/passwd'', file_path_line ''632'' ''/etc/shadow'',
               file_path_line ''633'' ''/etc/passwd'']))))
      = [''/etc/passwd'', ''/etc/shadow'']"
proof -
  have d: "distinct (map path (sensitive_files calloc_summary))"
    by (simp add: calloc_summary_def)
  have v: "map path (sensitive_files (fst (parse_file_events (example_header zero_baseline)
        example_externals (calloc_summary, [])
        (Some [file_path_line ''631'' ''/etc/passwd'', file_path_line ''632'' ''/etc/shadow'',
               file_path_line ''633'' ''/etc/passwd'']))))
      = [''/etc/passwd'', ''/etc/shadow'']"
    by code_simp
  from d sensitive_files_distinct [OF d, of "example_header zero_baseline" example_externals
      "[]" "Some [file_path_line ''631'' ''/etc/passwd'', file_path_line ''632'' ''/etc/shadow'',
               file_path_line ''633'' ''/etc/passwd'']"] v
  show ?thesis by (intro conjI)
qed

end
